theory Spec2Isabelle
  imports Main "HOL-Library.Signed_Division"
begin

section \<open>The asynchronous net executor of caffe2/core/net\_async\_base.cc\<close>

text \<open>
  A shallow embedding of the scheduler core \<^verbatim>\<open>AsyncNetBase\<close>. The class is a record, each
  member function takes the net and returns the updated net, a \<^verbatim>\<open>throw\<close> is the left
  summand of a sum, and a call that may block for ever returns \<open>None\<close>. Operator and chain
  ids are indices (\<open>nat\<close>); the C++ indexes its vectors with \<^verbatim>\<open>operator[]\<close>, \<^verbatim>\<open>front()\<close> and
  \<^verbatim>\<open>back()\<close>, which are undefined outside the range, and so are \<open>!\<close>, \<open>hd\<close> and \<open>last\<close>
  here: the theorems that depend on the range assume \<open>wf_net\<close>.
\<close>

subsection \<open>Data model\<close>

text \<open>
  Modelled from the spec: the device type tags of \<^verbatim>\<open>DeviceTypeProto\<close> (declared in
  caffe2.proto, which is not among the sources). The four CPU family tags and the
  accelerator tag are the ones net\_async\_base.cc names; \<open>PROTO_OTHER n\<close> stands for every
  other device type value.
\<close>

datatype DeviceTypeProto =
  PROTO_CPU | PROTO_CUDA | PROTO_MKLDNN | PROTO_IDEEP | PROTO_ONLY_FOR_TEST | PROTO_OTHER nat

record DeviceOption =
  device_type :: DeviceTypeProto
  has_device_id :: bool
  device_id :: int

datatype EventStatus = EVENT_INITIALIZED | EVENT_SCHEDULED | EVENT_SUCCESS | EVENT_FAILED

text \<open>What a \<^verbatim>\<open>catch\<close> clause of \<^verbatim>\<open>run\<close> can see: a \<^verbatim>\<open>std::exception\<close> with its \<^verbatim>\<open>what()\<close>,
  or anything else (caught by \<^verbatim>\<open>catch (...)\<close>).\<close>

datatype exn = std_exception string | unknown_exception

text \<open>The failures net\_async\_base.cc raises itself (\<^verbatim>\<open>CAFFE_ENFORCE\<close>, \<^verbatim>\<open>CAFFE_THROW\<close>,
  \<^verbatim>\<open>vector::at\<close>).\<close>

datatype error =
  InvalidNumaNodeId int
  | InvalidGpuId int
  | UnsupportedDeviceType DeviceTypeProto
  | ParentCountNegative int
  | OutOfRange

text \<open>
  Modelled from the spec: \<^verbatim>\<open>Event\<close> (caffe2/core/event.h is not among the sources). The
  spec gives it a status among four and a device type tag; \<^verbatim>\<open>GetDeviceOption()\<close> is the
  device option it was made for, and the error message is what \<^verbatim>\<open>SetFinished\<close> was given.
\<close>

record Event =
  event_device_option :: DeviceOption
  event_status :: EventStatus
  err_msg :: string

text \<open>Modelled from the spec: \<^verbatim>\<open>GetType()\<close> returns a device type tag.\<close>

definition GetType :: "Event \<Rightarrow> DeviceTypeProto" where
  "GetType ev = device_type (event_device_option ev)"

text \<open>Modelled from the spec: \<^verbatim>\<open>Query()\<close> returns the status.\<close>

definition Query :: "Event \<Rightarrow> EventStatus" where
  "Query ev = event_status ev"

text \<open>The terminal statuses.\<close>

definition terminal :: "EventStatus \<Rightarrow> bool" where
  "terminal st = (st = EVENT_SUCCESS \<or> st = EVENT_FAILED)"

text \<open>Modelled from the spec: \<^verbatim>\<open>SetFinished(msg?)\<close> forces the transition to a terminal
  status, \<open>FAILED\<close> with the message when one is given and \<open>SUCCESS\<close> without.\<close>

definition SetFinished :: "string option \<Rightarrow> Event \<Rightarrow> Event" where
  "SetFinished msg ev =
     (case msg of
        None \<Rightarrow> ev\<lparr>event_status := EVENT_SUCCESS\<rparr>
      | Some m \<Rightarrow> ev\<lparr>event_status := EVENT_FAILED, err_msg := m\<rparr>)"

text \<open>Modelled from the spec: the events are reset at the start of every run, to the
  status \<open>INITIALIZED\<close>.\<close>

definition ResetEvent :: "Event \<Rightarrow> Event" where
  "ResetEvent ev = ev\<lparr>event_status := EVENT_INITIALIZED, err_msg := []\<rparr>"

text \<open>
  How the work recorded on an event ends is decided outside the scheduler (by the device,
  or by another worker): it succeeds, fails with a message, or never completes.
\<close>

datatype completion = Succeeds | Fails string | Never

text \<open>
  Modelled from the spec: \<^verbatim>\<open>Finish()\<close> blocks until the status is terminal. So it is the
  identity on a terminal event, takes the outcome of the work otherwise, and does not
  return (\<open>None\<close>) when the work never completes.
\<close>

definition Finish :: "completion \<Rightarrow> Event \<Rightarrow> Event option" where
  "Finish c ev =
     (if terminal (event_status ev) then Some ev
      else case c of
        Succeeds \<Rightarrow> Some (ev\<lparr>event_status := EVENT_SUCCESS\<rparr>)
      | Fails m \<Rightarrow> Some (ev\<lparr>event_status := EVENT_FAILED, err_msg := m\<rparr>)
      | Never \<Rightarrow> None)"

text \<open>
  An operator as the scheduler sees it: \<^verbatim>\<open>type()\<close>, \<^verbatim>\<open>has_debug_def()\<close>,
  \<^verbatim>\<open>device_option()\<close>, \<^verbatim>\<open>SupportsAsyncScheduling()\<close>, its event, and whether
  \<^verbatim>\<open>DisableEvent()\<close> was called on it.
\<close>

record OperatorBase =
  op_type :: string
  has_debug_def :: bool
  device_option :: DeviceOption
  SupportsAsyncScheduling :: bool
  op_event :: Event
  event_disabled :: bool

record OperatorNode =
  runtime_parent_count :: int
  scheduled :: bool

record ChainNode =
  node_parents :: "nat list"
  node_children :: "nat list"

text \<open>A worker pool handle: the arguments \<^verbatim>\<open>ThreadPoolRegistry()->Create\<close> was called with.
  \<^verbatim>\<open>PoolsMap\<close> is keyed by device id, then by pool size.\<close>

record TaskThreadPool =
  pool_device_type :: DeviceTypeProto
  pool_device_id :: int
  pool_size :: int
  pool_per_net :: bool

type_synonym PoolsMap = "int \<times> int \<rightharpoonup> TaskThreadPool"

text \<open>
  The members of \<^verbatim>\<open>AsyncNetBase\<close>. \<^verbatim>\<open>operators_[i]\<close> and \<^verbatim>\<open>operator_nodes_[i].operator_\<close>
  point to the same operator, so \<open>operators\<close> holds the operators and \<open>operator_nodes\<close>
  only the counters of the nodes.
\<close>

record AsyncNetBase =
  operators :: "OperatorBase list"
  operator_nodes :: "OperatorNode list"
  chains :: "nat list list"
  chain_nodes :: "ChainNode list"
  num_workers :: int
  streams_per_gpu :: int
  finish_chain :: bool
  check_stream_status :: bool
  use_single_pool :: bool
  use_per_net_pools :: bool
  report_stats :: bool
  success :: bool
  caught_exception :: "exn option"
  cpu_pools :: PoolsMap
  gpu_pools :: PoolsMap

text \<open>
  What the scheduler calls and does not define: the operators' \<^verbatim>\<open>RunAsync\<close> (it returns
  a flag or throws, and may move the operator's own event), \<^verbatim>\<open>WaitEvents\<close> (it may throw),
  \<^verbatim>\<open>IsStreamFree\<close>, the outcome of the work behind each operator's event, the policy table
  \<^verbatim>\<open>Event::CanSchedule\<close>, the pool factory, the two range flags \<^verbatim>\<open>pool\<close> reads (global
  flags, 16 and 8 unless set otherwise), and whether the build defines
  \<^verbatim>\<open>CAFFE2_USE_EXCEPTION_PTR\<close>.
\<close>

record Collaborators =
  op_RunAsync :: "nat \<Rightarrow> int \<Rightarrow> Event \<Rightarrow> (exn + bool) \<times> Event"
  WaitEvents :: "nat \<Rightarrow> Event list \<Rightarrow> int \<Rightarrow> exn option"
  IsStreamFree :: "nat \<Rightarrow> int \<Rightarrow> bool"
  completes :: "nat \<Rightarrow> completion"
  CanSchedule :: "DeviceTypeProto \<Rightarrow> EventStatus \<Rightarrow> DeviceTypeProto \<Rightarrow> bool \<Rightarrow> bool"
  Create :: "DeviceTypeProto \<Rightarrow> int \<Rightarrow> int \<Rightarrow> bool \<Rightarrow> TaskThreadPool option"
  FLAGS_caffe2_net_async_max_gpus :: int
  FLAGS_caffe2_net_async_max_numa_nodes :: int
  CAFFE2_USE_EXCEPTION_PTR :: bool

subsection \<open>Accessors\<close>

definition tasksNum :: "AsyncNetBase \<Rightarrow> nat" where
  "tasksNum net = length (chains net)"

definition firstTaskOpId :: "AsyncNetBase \<Rightarrow> nat \<Rightarrow> nat" where
  "firstTaskOpId net task_id = hd (chains net ! task_id)"

definition lastTaskOpId :: "AsyncNetBase \<Rightarrow> nat \<Rightarrow> nat" where
  "lastTaskOpId net task_id = last (chains net ! task_id)"

definition event :: "AsyncNetBase \<Rightarrow> nat \<Rightarrow> Event" where
  "event net task_id = op_event (operators net ! last (chains net ! task_id))"

definition query :: "AsyncNetBase \<Rightarrow> nat \<Rightarrow> EventStatus" where
  "query net task_id = Query (event net task_id)"

definition children :: "AsyncNetBase \<Rightarrow> nat \<Rightarrow> nat list" where
  "children net task_id = node_children (chain_nodes net ! task_id)"

definition parents :: "AsyncNetBase \<Rightarrow> nat \<Rightarrow> nat list" where
  "parents net task_id = node_parents (chain_nodes net ! task_id)"

text \<open>A call through the reference \<^verbatim>\<open>operators_[op_id]->event()\<close> that changes the event.\<close>

definition set_op_event :: "nat \<Rightarrow> Event \<Rightarrow> AsyncNetBase \<Rightarrow> AsyncNetBase" where
  "set_op_event op_id ev net =
     net\<lparr>operators := (operators net)[op_id := (operators net ! op_id)\<lparr>op_event := ev\<rparr>]\<rparr>"

text \<open>The same through \<^verbatim>\<open>event(task_id)\<close>, the event of the chain's last operator.\<close>

definition set_event :: "nat \<Rightarrow> Event \<Rightarrow> AsyncNetBase \<Rightarrow> AsyncNetBase" where
  "set_event task_id ev net = set_op_event (last (chains net ! task_id)) ev net"

text \<open>The structure the planner guarantees: chains are non-empty lists of operator
  indices, and the chain graph has one node per chain, naming chains only.\<close>

definition wf_net :: "AsyncNetBase \<Rightarrow> bool" where
  "wf_net net =
     (list_all (\<lambda>chain. chain \<noteq> [] \<and> list_all (\<lambda>op_id. op_id < length (operators net)) chain)
        (chains net)
      \<and> length (operator_nodes net) = length (operators net)
      \<and> length (chain_nodes net) = length (chains net)
      \<and> list_all (\<lambda>node. list_all (\<lambda>p. p < length (chains net)) (node_parents node)
                        \<and> list_all (\<lambda>c. c < length (chains net)) (node_children node))
           (chain_nodes net))"

subsection \<open>finalizeEvents\<close>

fun finalizeEvents_loop :: "Collaborators \<Rightarrow> nat list \<Rightarrow> AsyncNetBase \<Rightarrow> AsyncNetBase option" where
  "finalizeEvents_loop env [] net = Some net"
| "finalizeEvents_loop env (task_id # rest) net =
     (let status = query net task_id in
      if status = EVENT_SCHEDULED then
        (case Finish (completes env (last (chains net ! task_id))) (event net task_id) of
           None \<Rightarrow> None
         | Some ev \<Rightarrow> finalizeEvents_loop env rest (set_event task_id ev net))
      else if status = EVENT_INITIALIZED then
        finalizeEvents_loop env rest (set_event task_id (SetFinished None (event net task_id)) net)
      else finalizeEvents_loop env rest net)"

definition finalizeEvents :: "Collaborators \<Rightarrow> AsyncNetBase \<Rightarrow> AsyncNetBase option" where
  "finalizeEvents env net = finalizeEvents_loop env [0..<tasksNum net] net"

text \<open>\<^verbatim>\<open>finishTasks\<close> walks an unordered set; the list gives the order of the walk.\<close>

fun finishTasks :: "Collaborators \<Rightarrow> nat list \<Rightarrow> AsyncNetBase \<Rightarrow> AsyncNetBase option" where
  "finishTasks env [] net = Some net"
| "finishTasks env (task_id # rest) net =
     (case Finish (completes env (last (chains net ! task_id))) (event net task_id) of
        None \<Rightarrow> None
      | Some ev \<Rightarrow> finishTasks env rest (set_event task_id ev net))"

subsection \<open>reset, the error slot and handleRunError\<close>

definition reset_task :: "nat \<Rightarrow> AsyncNetBase \<Rightarrow> AsyncNetBase" where
  "reset_task task_id net =
     (let node_id = hd (chains net ! task_id) in
      net\<lparr>operator_nodes := (operator_nodes net)
        [node_id := \<lparr>runtime_parent_count = int (length (parents net task_id)),
                     scheduled = False\<rparr>]\<rparr>)"

definition reset :: "Collaborators \<Rightarrow> AsyncNetBase \<Rightarrow> AsyncNetBase" where
  "reset env net =
     (let net1 = net\<lparr>operators :=
            map (\<lambda>op. op\<lparr>op_event := ResetEvent (op_event op)\<rparr>) (operators net)\<rparr>;
          net2 = fold reset_task [0..<tasksNum net1] net1;
          net3 = net2\<lparr>success := True\<rparr>
      in if CAFFE2_USE_EXCEPTION_PTR env then net3\<lparr>caught_exception := None\<rparr> else net3)"

text \<open>\<^verbatim>\<open>std::current_exception()\<close> is the exception \<open>e\<close> being handled.\<close>

definition storeExceptionPtr :: "Collaborators \<Rightarrow> exn \<Rightarrow> AsyncNetBase \<Rightarrow> AsyncNetBase" where
  "storeExceptionPtr env e net =
     (if CAFFE2_USE_EXCEPTION_PTR env then
        (if caught_exception net = None then net\<lparr>caught_exception := Some e\<rparr> else net)
      else net)"

definition setTaskErrorMessage :: "nat \<Rightarrow> string \<Rightarrow> AsyncNetBase \<Rightarrow> AsyncNetBase" where
  "setTaskErrorMessage task_id msg net =
     (if query net task_id = EVENT_INITIALIZED
      then set_event task_id (SetFinished (Some msg) (event net task_id)) net
      else net)"

text \<open>\<open>Inl e\<close> is \<^verbatim>\<open>std::rethrow_exception(caught_exception_)\<close>. The function reads the net
  and writes nothing.\<close>

definition handleRunError :: "Collaborators \<Rightarrow> AsyncNetBase \<Rightarrow> exn + bool" where
  "handleRunError env net =
     (if CAFFE2_USE_EXCEPTION_PTR env then
        (case caught_exception net of Some e \<Rightarrow> Inl e | None \<Rightarrow> Inr (success net))
      else Inr (success net))"

text \<open>\<^verbatim>\<open>RunAsync()\<close> resets and hands over to the subclass's \<^verbatim>\<open>DoRunAsync\<close>, which is a
  parameter here.\<close>

definition RunAsync ::
  "Collaborators \<Rightarrow> (AsyncNetBase \<Rightarrow> 'r) \<Rightarrow> AsyncNetBase \<Rightarrow> 'r" where
  "RunAsync env DoRunAsync net = DoRunAsync (reset env net)"

subsection \<open>run\<close>

definition asyncWait :: "Collaborators \<Rightarrow> AsyncNetBase \<Rightarrow> nat \<Rightarrow> int \<Rightarrow> nat list \<Rightarrow> exn option" where
  "asyncWait env net task_id stream_id wait_task_ids =
     (let first_op_id = hd (chains net ! task_id);
          events = map (event net) wait_task_ids
      in WaitEvents env first_op_id events stream_id)"

text \<open>The text after \<^verbatim>\<open>"Failed to execute an op: "\<close> and \<^verbatim>\<open>",  op "\<close>.\<close>

definition type_or_unknown :: "OperatorBase \<Rightarrow> string" where
  "type_or_unknown op = (if has_debug_def op then op_type op else '' unknown'')"

text \<open>
  One round of the loop over the chain's operators. The result is \<open>Inl (e, Some op_id)\<close>
  when \<open>e\<close> was thrown while the variable \<^verbatim>\<open>op\<close> pointed to this operator, \<open>Inr False\<close> for
  the \<^verbatim>\<open>return false\<close> inside the loop and \<open>Inr True\<close> when the round ends and the loop
  goes on. The per-operator timers of \<^verbatim>\<open>counters_\<close>, the trace events and the log are
  not modelled. \<^verbatim>\<open>op->Finish()\<close> waits on the operator's own event.
\<close>

definition run_op ::
  "Collaborators \<Rightarrow> nat \<Rightarrow> int \<Rightarrow> nat \<Rightarrow> AsyncNetBase
     \<Rightarrow> ((exn \<times> nat option + bool) \<times> AsyncNetBase) option" where
  "run_op env task_id stream_id op_id net =
     (case op_RunAsync env op_id stream_id (op_event (operators net ! op_id)) of
        (Inl e, ev) \<Rightarrow> Some (Inl (e, Some op_id), set_op_event op_id ev net)
      | (Inr succeeded, ev) \<Rightarrow>
          (let net1 = set_op_event op_id ev net;
               op = operators net1 ! op_id
           in case (if report_stats net1 \<and> succeeded
                       \<and> device_type (device_option op) \<noteq> PROTO_CPU
                    then map_option (\<lambda>ev'. set_op_event op_id ev' net1)
                           (Finish (completes env op_id) (op_event op))
                    else Some net1) of
                None \<Rightarrow> None
              | Some net2 \<Rightarrow>
                  if \<not> succeeded then
                    Some (Inr False,
                      setTaskErrorMessage task_id
                        (''Failed to execute an op: '' @ type_or_unknown (operators net2 ! op_id))
                        net2)
                  else Some (Inr True, net2)))"

text \<open>The loop: it stops at the first round that throws or returns false.\<close>

fun run_ops ::
  "Collaborators \<Rightarrow> nat \<Rightarrow> int \<Rightarrow> nat list \<Rightarrow> AsyncNetBase
     \<Rightarrow> ((exn \<times> nat option + bool) \<times> AsyncNetBase) option" where
  "run_ops env task_id stream_id [] net = Some (Inr True, net)"
| "run_ops env task_id stream_id (op_id # rest) net =
     (case run_op env task_id stream_id op_id net of
        None \<Rightarrow> None
      | Some (Inr True, net1) \<Rightarrow> run_ops env task_id stream_id rest net1
      | Some (r, net1) \<Rightarrow> Some (r, net1))"

text \<open>The body of the \<^verbatim>\<open>try\<close> block.\<close>

definition run_try ::
  "Collaborators \<Rightarrow> nat \<Rightarrow> int \<Rightarrow> AsyncNetBase
     \<Rightarrow> ((exn \<times> nat option + bool) \<times> AsyncNetBase) option" where
  "run_try env task_id stream_id net =
     (case (if \<not> finish_chain net
            then asyncWait env net task_id stream_id (parents net task_id) else None) of
        Some e \<Rightarrow> Some (Inl (e, None), net)
      | None \<Rightarrow>
         (case run_ops env task_id stream_id (chains net ! task_id) net of
            None \<Rightarrow> None
          | Some (Inl thrown, net1) \<Rightarrow> Some (Inl thrown, net1)
          | Some (Inr False, net1) \<Rightarrow> Some (Inr False, net1)
          | Some (Inr True, net1) \<Rightarrow>
              if finish_chain net1 then
                map_option (\<lambda>ev. (Inr True, set_event task_id ev net1))
                  (Finish (completes env (last (chains net1 ! task_id))) (event net1 task_id))
              else Some (Inr True, net1)))"

text \<open>The message the two \<^verbatim>\<open>catch\<close> clauses build.\<close>

definition catch_msg :: "AsyncNetBase \<Rightarrow> exn \<Rightarrow> nat option \<Rightarrow> string" where
  "catch_msg net e op =
     (case e of std_exception what \<Rightarrow> what
              | unknown_exception \<Rightarrow> ''Failed to execute task: unknown error'')
     @ (case op of None \<Rightarrow> []
                 | Some op_id \<Rightarrow> '',  op '' @ type_or_unknown (operators net ! op_id))"

definition run ::
  "Collaborators \<Rightarrow> nat \<Rightarrow> int \<Rightarrow> AsyncNetBase \<Rightarrow> (bool \<times> AsyncNetBase) option" where
  "run env task_id stream_id net =
     (case run_try env task_id stream_id net of
        None \<Rightarrow> None
      | Some (Inr b, net1) \<Rightarrow> Some (b, net1)
      | Some (Inl (e, op), net1) \<Rightarrow>
          (let net2 = storeExceptionPtr env e net1
           in Some (False, setTaskErrorMessage task_id (catch_msg net2 e op) net2)))"

subsection \<open>canSchedule, the parent counter and the scheduled flag\<close>

text \<open>
  The batch check. \<open>status\<close> and \<open>parent_failed\<close> are the two pointer arguments: \<open>None\<close> is
  \<^verbatim>\<open>nullptr\<close>, and the second component of the result is what \<^verbatim>\<open>*parent_failed\<close> holds at
  the end. \<^verbatim>\<open>status->at(parent_id)\<close> throws out of range.
\<close>

fun canSchedule_loop ::
  "Collaborators \<Rightarrow> AsyncNetBase \<Rightarrow> nat \<Rightarrow> EventStatus list option \<Rightarrow> bool option \<Rightarrow> nat list
     \<Rightarrow> error + bool \<times> bool option" where
  "canSchedule_loop env net first_child_op_id status parent_failed [] = Inr (True, parent_failed)"
| "canSchedule_loop env net first_child_op_id status parent_failed (parent_id # rest) =
     (let last_parent_op_id = last (chains net ! parent_id) in
      case (case status of
              Some st \<Rightarrow> if parent_id < length st then Inr (st ! parent_id) else Inl OutOfRange
            | None \<Rightarrow> Inr (Query (op_event (operators net ! last_parent_op_id)))) of
        Inl err \<Rightarrow> Inl err
      | Inr parent_status \<Rightarrow>
          if parent_status = EVENT_FAILED then
            Inr (False, case parent_failed of None \<Rightarrow> None | Some _ \<Rightarrow> Some True)
          else if \<not> CanSchedule env
                 (GetType (op_event (operators net ! last_parent_op_id)))
                 parent_status
                 (GetType (op_event (operators net ! first_child_op_id)))
                 (SupportsAsyncScheduling (operators net ! first_child_op_id))
          then Inr (False, parent_failed)
          else canSchedule_loop env net first_child_op_id status parent_failed rest)"

definition canSchedule ::
  "Collaborators \<Rightarrow> AsyncNetBase \<Rightarrow> nat \<Rightarrow> EventStatus list option \<Rightarrow> bool option
     \<Rightarrow> error + bool \<times> bool option" where
  "canSchedule env net task_id status parent_failed =
     canSchedule_loop env net (hd (chains net ! task_id)) status parent_failed
       (parents net task_id)"

text \<open>The pairwise overload \<^verbatim>\<open>canSchedule(int parent_id, int child_id)\<close>.\<close>

definition canSchedule_parent_child :: "Collaborators \<Rightarrow> AsyncNetBase \<Rightarrow> nat \<Rightarrow> nat \<Rightarrow> bool" where
  "canSchedule_parent_child env net parent_id child_id =
     (let parent_event = event net parent_id;
          first_child_op = operators net ! hd (chains net ! child_id)
      in CanSchedule env (GetType parent_event) (Query parent_event)
           (GetType (op_event first_child_op)) (SupportsAsyncScheduling first_child_op))"

definition getParentCount :: "AsyncNetBase \<Rightarrow> nat \<Rightarrow> int" where
  "getParentCount net child_id =
     runtime_parent_count (operator_nodes net ! hd (chains net ! child_id))"

text \<open>The decrement is stored before \<^verbatim>\<open>CAFFE_ENFORCE_GE\<close> looks at it, so the net is
  returned on both paths. The counter is an \<open>int\<close> here; the 32-bit range is never left
  from a count of parents.\<close>

definition updateParentCount :: "AsyncNetBase \<Rightarrow> nat \<Rightarrow> (error + int) \<times> AsyncNetBase" where
  "updateParentCount net child_id =
     (let node_id = hd (chains net ! child_id);
          child_node = operator_nodes net ! node_id;
          parent_count = runtime_parent_count child_node - 1;
          net1 = net\<lparr>operator_nodes := (operator_nodes net)
                   [node_id := child_node\<lparr>runtime_parent_count := parent_count\<rparr>]\<rparr>
      in if parent_count \<ge> 0 then (Inr parent_count, net1)
         else (Inl (ParentCountNegative parent_count), net1))"

definition testAndSetScheduled :: "AsyncNetBase \<Rightarrow> nat \<Rightarrow> bool \<times> AsyncNetBase" where
  "testAndSetScheduled net task_id =
     (let node_id = hd (chains net ! task_id);
          task_op_node = operator_nodes net ! node_id
      in (\<not> scheduled task_op_node,
          net\<lparr>operator_nodes := (operator_nodes net)
                 [node_id := task_op_node\<lparr>scheduled := True\<rparr>]\<rparr>))"

subsection \<open>Worker pools\<close>

text \<open>\<^verbatim>\<open>pools[device_id][pool_size]\<close>: an absent entry and a null pointer are both \<open>None\<close>.
  The factory may know no creator for the device type and return null.\<close>

definition poolGetter ::
  "Collaborators \<Rightarrow> AsyncNetBase \<Rightarrow> PoolsMap \<Rightarrow> DeviceTypeProto \<Rightarrow> int \<Rightarrow> int
     \<Rightarrow> TaskThreadPool option \<times> PoolsMap" where
  "poolGetter env net pools dev_type dev_id sz =
     (case pools (dev_id, sz) of
        Some pool \<Rightarrow> (Some pool, pools)
      | None \<Rightarrow>
         (case Create env dev_type dev_id sz (use_per_net_pools net) of
            None \<Rightarrow> (None, pools)
          | Some pool \<Rightarrow> (Some pool, pools((dev_id, sz) \<mapsto> pool))))"

definition cpu_types :: "DeviceTypeProto set" where
  "cpu_types = {PROTO_CPU, PROTO_MKLDNN, PROTO_IDEEP, PROTO_ONLY_FOR_TEST}"

definition pool ::
  "Collaborators \<Rightarrow> AsyncNetBase \<Rightarrow> DeviceOption
     \<Rightarrow> error + TaskThreadPool option \<times> AsyncNetBase" where
  "pool env net dev_option =
     (if use_single_pool net then
        (let (p, m) = poolGetter env net (cpu_pools net) PROTO_CPU (- 1) (num_workers net)
         in Inr (p, net\<lparr>cpu_pools := m\<rparr>))
      else if device_type dev_option \<in> cpu_types then
        (let numa_node_id = (if has_device_id dev_option then device_id dev_option else - 1) in
         if has_device_id dev_option \<and> \<not> numa_node_id \<ge> 0 then
           Inl (InvalidNumaNodeId numa_node_id)
         else if \<not> numa_node_id < FLAGS_caffe2_net_async_max_numa_nodes env then
           Inl (InvalidNumaNodeId numa_node_id)
         else
           (let (p, m) = poolGetter env net (cpu_pools net) PROTO_CPU numa_node_id (num_workers net)
            in Inr (p, net\<lparr>cpu_pools := m\<rparr>)))
      else if device_type dev_option = PROTO_CUDA then
        (let gpu_id = device_id dev_option in
         if \<not> (gpu_id \<ge> 0 \<and> gpu_id < FLAGS_caffe2_net_async_max_gpus env) then
           Inl (InvalidGpuId gpu_id)
         else
           (let (p, m) = poolGetter env net (gpu_pools net) PROTO_CUDA gpu_id (num_workers net)
            in Inr (p, net\<lparr>gpu_pools := m\<rparr>)))
      else Inl (UnsupportedDeviceType (device_type dev_option)))"

subsection \<open>Stream selection\<close>

definition isStreamFree :: "Collaborators \<Rightarrow> AsyncNetBase \<Rightarrow> nat \<Rightarrow> int \<Rightarrow> bool" where
  "isStreamFree env net task_id stream_id =
     IsStreamFree env (last (chains net ! task_id)) stream_id"

text \<open>
  The \<^verbatim>\<open>do ... while\<close> loop of \<^verbatim>\<open>stream\<close> over the calling thread's counters
  (\<^verbatim>\<open>getStreamCounters()\<close>, a \<^verbatim>\<open>thread_local\<close> vector, passed in and out). The loop has no
  bound of its own, so it is a partial function: \<open>None\<close> when it never ends.
  \<^verbatim>\<open>at(gpu_id)\<close> throws out of range; \<^verbatim>\<open>%=\<close> truncates towards zero (\<open>smod\<close>) and is
  undefined for a zero divisor, where \<open>smod\<close> returns its left argument.
\<close>

partial_function (option) stream_loop ::
  "Collaborators \<Rightarrow> AsyncNetBase \<Rightarrow> nat \<Rightarrow> nat \<Rightarrow> int list
     \<Rightarrow> ((error + int) \<times> int list) option" where
  "stream_loop env net task_id gpu_id counters =
     (if gpu_id < length counters then
        (let stream_id = counters ! gpu_id;
             counters1 = counters[gpu_id := stream_id + 1];
             counters2 = counters1[gpu_id := (counters1 ! gpu_id) smod streams_per_gpu net]
         in if check_stream_status net \<and> \<not> isStreamFree env net task_id stream_id
            then stream_loop env net task_id gpu_id counters2
            else Some (Inr stream_id, counters2))
      else Some (Inl OutOfRange, counters))"

declare stream_loop.simps [code]

definition stream ::
  "Collaborators \<Rightarrow> AsyncNetBase \<Rightarrow> nat \<Rightarrow> int list \<Rightarrow> ((error + int) \<times> int list) option" where
  "stream env net task_id counters =
     (let dev_option = event_device_option (event net task_id) in
      if device_type dev_option = PROTO_CUDA then
        (let gpu_id = device_id dev_option in
         if \<not> gpu_id \<ge> 0 then Some (Inl (InvalidGpuId gpu_id), counters)
         else
           (let counters1 =
                  (if nat gpu_id \<ge> length counters
                   then counters @ replicate (nat gpu_id + 1 - length counters) 0
                   else counters)
            in stream_loop env net task_id (nat gpu_id) counters1))
      else Some (Inr 0, counters))"

subsection \<open>The events of a chain at construction\<close>

text \<open>Modelled from the spec: \<^verbatim>\<open>DisableEvent()\<close> (caffe2/core/operator.h is not among the
  sources) marks the operator's event as disabled.\<close>

definition DisableEvent :: "OperatorBase \<Rightarrow> OperatorBase" where
  "DisableEvent op = op\<lparr>event_disabled := True\<rparr>"

text \<open>The inner loop of the constructor over one chain (lines 100 to 106).\<close>

definition disable_inner_events :: "nat list \<Rightarrow> OperatorBase list \<Rightarrow> OperatorBase list" where
  "disable_inner_events chain ops =
     fold (\<lambda>op_id ops'.
             if op_id = last chain \<or> op_id = hd chain then ops'
             else ops'[op_id := DisableEvent (ops' ! op_id)])
          chain ops"

text \<open>The loop over the chains (lines 94 to 108): \<^verbatim>\<open>events_\<close> as the indices of the operators
  whose events it points to, and the net with the inner events disabled.\<close>

definition init_events :: "AsyncNetBase \<Rightarrow> nat list \<times> AsyncNetBase" where
  "init_events net =
     (map last (chains net),
      net\<lparr>operators :=
        fold (\<lambda>chain ops. if \<not> report_stats net then disable_inner_events chain ops else ops)
             (chains net) (operators net)\<rparr>)"

subsection \<open>Auxiliary notions of the proofs\<close>

text \<open>What \<^verbatim>\<open>finalizeEvents\<close> does to one event.\<close>

definition finalized :: "Collaborators \<Rightarrow> nat \<Rightarrow> Event \<Rightarrow> Event option" where
  "finalized env op_id ev =
     (if event_status ev = EVENT_SCHEDULED then Finish (completes env op_id) ev
      else if event_status ev = EVENT_INITIALIZED then Some (SetFinished None ev)
      else Some ev)"

text \<open>Between two nets: the chains are the same, and every operator is as it was or has
  its event finalized.\<close>

definition op_step :: "Collaborators \<Rightarrow> AsyncNetBase \<Rightarrow> AsyncNetBase \<Rightarrow> bool" where
  "op_step env net net' =
     (chains net' = chains net \<and> length (operators net') = length (operators net) \<and>
      (\<forall>i < length (operators net).
         operators net' ! i = operators net ! i \<or>
         (\<exists>ev. finalized env i (op_event (operators net ! i)) = Some ev \<and>
               operators net' ! i = (operators net ! i)\<lparr>op_event := ev\<rparr>)))"

text \<open>The net with every event replaced by a fixed one: two nets with the same image
  differ in their events only.\<close>

definition blank_event :: Event where
  "blank_event =
     \<lparr>event_device_option = \<lparr>device_type = PROTO_CPU, has_device_id = False, device_id = 0\<rparr>,
      event_status = EVENT_INITIALIZED, err_msg = []\<rparr>"

definition without_events :: "AsyncNetBase \<Rightarrow> AsyncNetBase" where
  "without_events net =
     net\<lparr>operators := map (\<lambda>op. op\<lparr>op_event := blank_event\<rparr>) (operators net)\<rparr>"

text \<open>A caller's calls of the member functions that change the net, one after the other.
  An exception a call throws is dropped by the caller; what the call wrote before stays.\<close>

datatype call =
  Reset
  | Run nat int
  | FinalizeEvents
  | FinishTasks "nat list"
  | UpdateParentCount nat
  | TestAndSetScheduled nat
  | HandleRunError
  | Pool DeviceOption

fun do_call :: "Collaborators \<Rightarrow> call \<Rightarrow> AsyncNetBase \<Rightarrow> AsyncNetBase option" where
  "do_call env Reset net = Some (reset env net)"
| "do_call env (Run task_id stream_id) net = map_option snd (run env task_id stream_id net)"
| "do_call env FinalizeEvents net = finalizeEvents env net"
| "do_call env (FinishTasks task_ids) net = finishTasks env task_ids net"
| "do_call env (UpdateParentCount child_id) net = Some (snd (updateParentCount net child_id))"
| "do_call env (TestAndSetScheduled task_id) net = Some (snd (testAndSetScheduled net task_id))"
| "do_call env HandleRunError net = Some net"
| "do_call env (Pool dev_option) net =
     Some (case pool env net dev_option of Inl err \<Rightarrow> net | Inr (p, net') \<Rightarrow> net')"

fun do_calls :: "Collaborators \<Rightarrow> call list \<Rightarrow> AsyncNetBase \<Rightarrow> AsyncNetBase option" where
  "do_calls env [] net = Some net"
| "do_calls env (c # cs) net =
     (case do_call env c net of None \<Rightarrow> None | Some net1 \<Rightarrow> do_calls env cs net1)"

subsection \<open>Concrete nets and collaborators\<close>

text \<open>
  Modelled from the spec: the policy table \<^verbatim>\<open>Event::CanSchedule\<close> (caffe2/core/event.h is
  not among the sources), with the same device type as the "same device family". The
  theorems take the table as a parameter; this one instantiates them.
\<close>

definition Event_CanSchedule ::
  "DeviceTypeProto \<Rightarrow> EventStatus \<Rightarrow> DeviceTypeProto \<Rightarrow> bool \<Rightarrow> bool" where
  "Event_CanSchedule parent_type parent_status child_type child_supports_async =
     (if parent_status = EVENT_SUCCESS then True
      else if parent_status = EVENT_SCHEDULED then parent_type = child_type \<and> child_supports_async
      else False)"

definition cpu_option :: DeviceOption where
  "cpu_option = \<lparr>device_type = PROTO_CPU, has_device_id = False, device_id = 0\<rparr>"

definition gpu_option :: "int \<Rightarrow> DeviceOption" where
  "gpu_option gpu_id = \<lparr>device_type = PROTO_CUDA, has_device_id = True, device_id = gpu_id\<rparr>"

definition mk_op :: "string \<Rightarrow> bool \<Rightarrow> DeviceOption \<Rightarrow> EventStatus \<Rightarrow> OperatorBase" where
  "mk_op ty dbg dev st =
     \<lparr>op_type = ty, has_debug_def = dbg, device_option = dev, SupportsAsyncScheduling = False,
      op_event = \<lparr>event_device_option = dev, event_status = st, err_msg = []\<rparr>,
      event_disabled = False\<rparr>"

text \<open>A net with the flags at the defaults of the file's \<^verbatim>\<open>C10_DEFINE\<close> lines.\<close>

definition mk_net :: "OperatorBase list \<Rightarrow> nat list list \<Rightarrow> ChainNode list \<Rightarrow> AsyncNetBase" where
  "mk_net ops chs nodes =
     \<lparr>operators = ops,
      operator_nodes = map (\<lambda>_. \<lparr>runtime_parent_count = 0, scheduled = False\<rparr>) ops,
      chains = chs, chain_nodes = nodes, num_workers = - 1, streams_per_gpu = 1,
      finish_chain = False, check_stream_status = False, use_single_pool = False,
      use_per_net_pools = False, report_stats = False, success = True,
      caught_exception = None, cpu_pools = Map.empty, gpu_pools = Map.empty\<rparr>"

definition mk_env ::
  "(nat \<Rightarrow> int \<Rightarrow> Event \<Rightarrow> (exn + bool) \<times> Event) \<Rightarrow> (nat \<Rightarrow> int \<Rightarrow> bool) \<Rightarrow> Collaborators" where
  "mk_env run_async stream_free =
     \<lparr>op_RunAsync = run_async, WaitEvents = (\<lambda>_ _ _. None), IsStreamFree = stream_free,
      completes = (\<lambda>_. Succeeds), CanSchedule = Event_CanSchedule,
      Create = (\<lambda>ty dev sz per_net. Some \<lparr>pool_device_type = ty, pool_device_id = dev,
                  pool_size = sz, pool_per_net = per_net\<rparr>),
      FLAGS_caffe2_net_async_max_gpus = 16, FLAGS_caffe2_net_async_max_numa_nodes = 8,
      CAFFE2_USE_EXCEPTION_PTR = True\<rparr>"

text \<open>Every operator returns true and leaves its event scheduled; every stream is free.\<close>

definition env_ok :: Collaborators where
  "env_ok = mk_env (\<lambda>op_id stream_id ev. (Inr True, ev\<lparr>event_status := EVENT_SCHEDULED\<rparr>))
                   (\<lambda>op_id stream_id. True)"

definition no_edges :: ChainNode where
  "no_edges = \<lparr>node_parents = [], node_children = []\<rparr>"

text \<open>Three one-operator chains whose events are scheduled, initialized and failed.\<close>

definition net_three_chains :: AsyncNetBase where
  "net_three_chains =
     mk_net [mk_op ''A'' True cpu_option EVENT_SCHEDULED,
             mk_op ''B'' True cpu_option EVENT_INITIALIZED,
             mk_op ''C'' True cpu_option EVENT_FAILED]
            [[0], [1], [2]] [no_edges, no_edges, no_edges]"

text \<open>The diamond A \<rightarrow> {B, C} \<rightarrow> D, one chain per operator.\<close>

definition net_diamond :: AsyncNetBase where
  "net_diamond =
     mk_net [mk_op ''A'' True cpu_option EVENT_INITIALIZED,
             mk_op ''B'' True cpu_option EVENT_INITIALIZED,
             mk_op ''C'' True cpu_option EVENT_INITIALIZED,
             mk_op ''D'' True cpu_option EVENT_INITIALIZED]
            [[0], [1], [2], [3]]
            [\<lparr>node_parents = [], node_children = [1, 2]\<rparr>,
             \<lparr>node_parents = [0], node_children = [3]\<rparr>,
             \<lparr>node_parents = [0], node_children = [3]\<rparr>,
             \<lparr>node_parents = [1, 2], node_children = []\<rparr>]"

text \<open>One chain A, B, C; \<open>dbg\<close> says whether B has a debug def.\<close>

definition net_linear :: "bool \<Rightarrow> AsyncNetBase" where
  "net_linear dbg =
     mk_net [mk_op ''A'' True cpu_option EVENT_INITIALIZED,
             mk_op ''B'' dbg cpu_option EVENT_INITIALIZED,
             mk_op ''C'' True cpu_option EVENT_INITIALIZED]
            [[0, 1, 2]] [no_edges]"

text \<open>Operator \<open>k\<close> returns false and leaves its event alone; the others succeed at once.\<close>

definition env_fail_at :: "nat \<Rightarrow> Collaborators" where
  "env_fail_at k =
     mk_env (\<lambda>op_id stream_id ev.
               if op_id = k then (Inr False, ev)
               else (Inr True, ev\<lparr>event_status := EVENT_SUCCESS\<rparr>))
            (\<lambda>op_id stream_id. True)"

text \<open>Operator \<open>k\<close> throws \<open>e\<close>.\<close>

definition env_throw_at :: "nat \<Rightarrow> exn \<Rightarrow> Collaborators" where
  "env_throw_at k e =
     mk_env (\<lambda>op_id stream_id ev.
               if op_id = k then (Inl e, ev)
               else (Inr True, ev\<lparr>event_status := EVENT_SUCCESS\<rparr>))
            (\<lambda>op_id stream_id. True)"

text \<open>Operator \<open>k\<close> records its event as scheduled and then throws \<open>e\<close>.\<close>

definition env_move_throw :: "nat \<Rightarrow> exn \<Rightarrow> Collaborators" where
  "env_move_throw k e =
     mk_env (\<lambda>op_id stream_id ev.
               if op_id = k then (Inl e, ev\<lparr>event_status := EVENT_SCHEDULED\<rparr>)
               else (Inr True, ev\<lparr>event_status := EVENT_SUCCESS\<rparr>))
            (\<lambda>op_id stream_id. True)"

text \<open>A chain with two parent chains whose events have the given statuses.\<close>

definition net_join :: "EventStatus \<Rightarrow> EventStatus \<Rightarrow> AsyncNetBase" where
  "net_join st0 st1 =
     mk_net [mk_op ''P0'' True cpu_option st0,
             mk_op ''P1'' True cpu_option st1,
             mk_op ''C'' True cpu_option EVENT_INITIALIZED]
            [[0], [1], [2]]
            [\<lparr>node_parents = [], node_children = [2]\<rparr>,
             \<lparr>node_parents = [], node_children = [2]\<rparr>,
             \<lparr>node_parents = [0, 1], node_children = []\<rparr>]"

text \<open>One accelerator chain on device 0 with two streams per device.\<close>

definition net_gpu :: "bool \<Rightarrow> AsyncNetBase" where
  "net_gpu check =
     (mk_net [mk_op ''G'' True (gpu_option 0) EVENT_INITIALIZED] [[0]] [no_edges])
       \<lparr>streams_per_gpu := 2, check_stream_status := check\<rparr>"

text \<open>No stream is ever reported free.\<close>

definition env_busy :: Collaborators where
  "env_busy = mk_env (\<lambda>op_id stream_id ev. (Inr True, ev)) (\<lambda>op_id stream_id. False)"

text \<open>A device type outside the CPU family and not the accelerator.\<close>

definition other_option :: DeviceOption where
  "other_option = \<lparr>device_type = PROTO_OTHER 4, has_device_id = False, device_id = 0\<rparr>"

definition net_single_pool :: AsyncNetBase where
  "net_single_pool = net_three_chains\<lparr>use_single_pool := True\<rparr>"

text \<open>The linear net after a run that captured an exception.\<close>

definition net_caught :: AsyncNetBase where
  "net_caught = (net_linear True)\<lparr>success := False,
     caught_exception := Some (std_exception ''boom'')\<rparr>"

section \<open>Properties\<close>

lemmas ex_defs = mk_net_def mk_op_def cpu_option_def gpu_option_def no_edges_def
  mk_env_def env_ok_def

lemmas run_eval = run_def run_try_def asyncWait_def run_op_def set_op_event_def set_event_def
  setTaskErrorMessage_def storeExceptionPtr_def catch_msg_def query_def Query_def event_def
  parents_def type_or_unknown_def SetFinished_def Finish_def Let_def

subsection \<open>finalizeEvents leaves every chain's event terminal\<close>

lemma Finish_terminal: "Finish c ev = Some ev' \<Longrightarrow> terminal (event_status ev')"
  by (auto simp: Finish_def terminal_def split: if_splits completion.splits)

lemma SetFinished_terminal: "terminal (event_status (SetFinished m ev))"
  by (simp add: SetFinished_def terminal_def split: option.splits)

lemma finalized_terminal: "finalized env i ev = Some ev' \<Longrightarrow> terminal (event_status ev')"
  by (cases "event_status ev")
     (auto simp: finalized_def SetFinished_def terminal_def dest: Finish_terminal)

lemma finalized_idem: "terminal (event_status ev) \<Longrightarrow> finalized env i ev = Some ev"
  by (auto simp: finalized_def terminal_def)

lemma op_step_refl: "op_step env net net"
  by (simp add: op_step_def)

lemma op_step_trans:
  assumes "op_step env net net1" and "op_step env net1 net2"
  shows "op_step env net net2"
  unfolding op_step_def
proof (intro conjI allI impI)
  show "chains net2 = chains net" using assms by (simp add: op_step_def)
  show "length (operators net2) = length (operators net)" using assms by (simp add: op_step_def)
  fix i assume i: "i < length (operators net)"
  have i1: "i < length (operators net1)" using assms(1) i by (simp add: op_step_def)
  from assms(2) i1 have d2: "operators net2 ! i = operators net1 ! i \<or>
         (\<exists>ev'. finalized env i (op_event (operators net1 ! i)) = Some ev' \<and>
               operators net2 ! i = (operators net1 ! i)\<lparr>op_event := ev'\<rparr>)"
    by (simp add: op_step_def)
  from assms(1) i consider
      (same) "operators net1 ! i = operators net ! i"
    | (fin) ev where "finalized env i (op_event (operators net ! i)) = Some ev"
        "operators net1 ! i = (operators net ! i)\<lparr>op_event := ev\<rparr>"
    by (auto simp: op_step_def)
  then show "operators net2 ! i = operators net ! i \<or>
         (\<exists>ev. finalized env i (op_event (operators net ! i)) = Some ev \<and>
               operators net2 ! i = (operators net ! i)\<lparr>op_event := ev\<rparr>)"
  proof cases
    case same
    show ?thesis using d2 unfolding same .
  next
    case fin
    have t: "terminal (event_status ev)" using fin(1) by (rule finalized_terminal)
    show ?thesis using d2 fin t by (auto simp: finalized_idem)
  qed
qed

lemma op_step_set_event:
  assumes "last (chains net ! task_id) < length (operators net)"
    and "finalized env (last (chains net ! task_id)) (event net task_id) = Some ev"
  shows "op_step env net (set_event task_id ev net)"
  using assms
  by (auto simp: op_step_def set_event_def set_op_event_def event_def nth_list_update)

lemma finalizeEvents_loop_step:
  "finalizeEvents_loop env ts net = Some net' \<Longrightarrow>
   \<forall>t \<in> set ts. last (chains net ! t) < length (operators net) \<Longrightarrow>
   op_step env net net' \<and> (\<forall>t \<in> set ts. terminal (query net' t))"
proof (induction ts arbitrary: net)
  case Nil
  then show ?case by (simp add: op_step_refl)
next
  case (Cons t ts)
  let ?i = "last (chains net ! t)"
  have i: "?i < length (operators net)" using Cons.prems(2) by simp
  obtain net1 where n1: "finalizeEvents_loop env ts net1 = Some net'"
    and s1: "op_step env net net1" and t1: "terminal (query net1 t)"
  proof (cases "query net t")
    case EVENT_SCHEDULED
    then obtain ev where f: "Finish (completes env ?i) (event net t) = Some ev"
      and r: "finalizeEvents_loop env ts (set_event t ev net) = Some net'"
      using Cons.prems(1) by (auto split: option.splits)
    have "finalized env ?i (event net t) = Some ev"
      using EVENT_SCHEDULED f by (simp add: finalized_def query_def Query_def)
    then have "op_step env net (set_event t ev net)" using i by (rule op_step_set_event[rotated])
    moreover have "terminal (query (set_event t ev net) t)"
      using i Finish_terminal[OF f]
      by (simp add: query_def Query_def event_def set_event_def set_op_event_def)
    ultimately show ?thesis using that r by blast
  next
    case EVENT_INITIALIZED
    let ?ev = "SetFinished None (event net t)"
    have r: "finalizeEvents_loop env ts (set_event t ?ev net) = Some net'"
      using Cons.prems(1) EVENT_INITIALIZED by simp
    have "finalized env ?i (event net t) = Some ?ev"
      using EVENT_INITIALIZED by (simp add: finalized_def query_def Query_def)
    then have "op_step env net (set_event t ?ev net)" using i by (rule op_step_set_event[rotated])
    moreover have "terminal (query (set_event t ?ev net) t)"
      using i SetFinished_terminal
      by (simp add: query_def Query_def event_def set_event_def set_op_event_def)
    ultimately show ?thesis using that r by blast
  next
    case EVENT_SUCCESS
    then show ?thesis using that[of net] Cons.prems(1) by (simp add: op_step_refl terminal_def)
  next
    case EVENT_FAILED
    then show ?thesis using that[of net] Cons.prems(1) by (simp add: op_step_refl terminal_def)
  qed
  have c1: "chains net1 = chains net" and l1: "length (operators net1) = length (operators net)"
    using s1 by (simp_all add: op_step_def)
  have "\<forall>t \<in> set ts. last (chains net1 ! t) < length (operators net1)"
    using Cons.prems(2) c1 l1 by simp
  from Cons.IH[OF n1 this] have s2: "op_step env net1 net'"
    and t2: "\<forall>t \<in> set ts. terminal (query net' t)" by simp_all
  have s: "op_step env net net'" using s1 s2 by (rule op_step_trans)
  have "terminal (query net' t)"
  proof -
    have i1: "?i < length (operators net1)" using i l1 by simp
    from s2 i1 have "operators net' ! ?i = operators net1 ! ?i \<or>
         (\<exists>ev. finalized env ?i (op_event (operators net1 ! ?i)) = Some ev \<and>
               operators net' ! ?i = (operators net1 ! ?i)\<lparr>op_event := ev\<rparr>)"
      by (simp add: op_step_def)
    moreover have "chains net' = chains net" using s by (simp add: op_step_def)
    ultimately show ?thesis using t1 c1
      by (auto simp: query_def Query_def event_def dest: finalized_terminal)
  qed
  with s t2 show ?case by simp
qed

lemma wf_net_last:
  "wf_net net \<Longrightarrow> task_id < length (chains net) \<Longrightarrow>
   last (chains net ! task_id) < length (operators net)"
  by (auto simp: wf_net_def list_all_iff dest!: nth_mem[of task_id "chains net"])

lemma finalizeEvents_loop_returns:
  "\<forall>i. completes env i \<noteq> Never \<Longrightarrow> \<exists>net'. finalizeEvents_loop env ts net = Some net'"
proof (induction ts arbitrary: net)
  case Nil
  then show ?case by simp
next
  case (Cons t ts)
  have "Finish (completes env i) e \<noteq> None" for i e
    using Cons.prems by (cases "completes env i") (auto simp: Finish_def)
  then have F: "Finish (completes env (last (chains net ! t))) (event net t) \<noteq> None" .
  show ?case using Cons.IH[OF Cons.prems] F
    by (cases "Finish (completes env (last (chains net ! t))) (event net t)")
       (simp_all add: Let_def)
qed

lemma finalizeEvents_returns:
  "\<forall>i. completes env i \<noteq> Never \<Longrightarrow> \<exists>net'. finalizeEvents env net = Some net'"
  unfolding finalizeEvents_def by (rule finalizeEvents_loop_returns)

text \<open>
  Claim C1. When \<open>finalizeEvents\<close> returns, the event of every chain is in a terminal
  status: an event found \<open>SCHEDULED\<close> is what \<open>Finish\<close> returned for it, an event found
  \<open>INITIALIZED\<close> is what \<open>SetFinished()\<close> made of it, and an event that was terminal is
  unchanged.
\<close>

theorem finalizeEvents_terminal:
  assumes "wf_net net" and "finalizeEvents env net = Some net'"
  shows "tasksNum net' = tasksNum net \<and>
    (\<forall>task_id < tasksNum net'.
       terminal (query net' task_id) \<and>
       (query net task_id = EVENT_SCHEDULED \<longrightarrow>
          Finish (completes env (lastTaskOpId net task_id)) (event net task_id)
            = Some (event net' task_id)) \<and>
       (query net task_id = EVENT_INITIALIZED \<longrightarrow>
          event net' task_id = SetFinished None (event net task_id)) \<and>
       (terminal (query net task_id) \<longrightarrow> event net' task_id = event net task_id))"
proof -
  have r: "\<forall>t \<in> set [0..<tasksNum net]. last (chains net ! t) < length (operators net)"
    using assms(1) by (simp add: tasksNum_def wf_net_last)
  from finalizeEvents_loop_step[OF assms(2)[unfolded finalizeEvents_def] r]
  have s: "op_step env net net'" and t: "\<forall>t < tasksNum net. terminal (query net' t)"
    by simp_all
  have c: "chains net' = chains net" using s by (simp add: op_step_def)
  have "terminal (query net' task_id) \<and>
       (query net task_id = EVENT_SCHEDULED \<longrightarrow>
          Finish (completes env (lastTaskOpId net task_id)) (event net task_id)
            = Some (event net' task_id)) \<and>
       (query net task_id = EVENT_INITIALIZED \<longrightarrow>
          event net' task_id = SetFinished None (event net task_id)) \<and>
       (terminal (query net task_id) \<longrightarrow> event net' task_id = event net task_id)"
    if lt: "task_id < tasksNum net" for task_id
  proof -
    let ?i = "last (chains net ! task_id)"
    have i: "?i < length (operators net)" using assms(1) lt by (simp add: tasksNum_def wf_net_last)
    have tt: "terminal (query net' task_id)" using t lt by simp
    from s i consider
        (same) "operators net' ! ?i = operators net ! ?i"
      | (fin) ev where "finalized env ?i (op_event (operators net ! ?i)) = Some ev"
          "operators net' ! ?i = (operators net ! ?i)\<lparr>op_event := ev\<rparr>"
      by (auto simp: op_step_def)
    then show ?thesis
    proof cases
      case same
      then have e: "event net' task_id = event net task_id" by (simp add: event_def c)
      then have "terminal (query net task_id)" using tt by (simp add: query_def)
      then show ?thesis using e tt by (auto simp: terminal_def query_def)
    next
      case fin
      then have e: "event net' task_id = ev" by (simp add: event_def c)
      have f: "finalized env ?i (event net task_id) = Some ev" using fin(1) by (simp add: event_def)
      show ?thesis using tt e f
        by (auto simp: finalized_def query_def Query_def lastTaskOpId_def terminal_def
                 split: if_splits)
    qed
  qed
  then show ?thesis by (simp add: tasksNum_def c)
qed

theorem finalizeEvents_terminal_witness:
  "wf_net net_three_chains \<and>
   (\<exists>net'. finalizeEvents env_ok net_three_chains = Some net' \<and>
      map (query net') [0, 1, 2] = [EVENT_SUCCESS, EVENT_SUCCESS, EVENT_FAILED])"
proof -
  have w: "wf_net net_three_chains"
    by (simp add: wf_net_def ex_defs net_three_chains_def)
  obtain net' where f: "finalizeEvents env_ok net_three_chains = Some net'"
    by (simp add: finalizeEvents_def tasksNum_def ex_defs net_three_chains_def upt_rec
     query_def Query_def event_def
     Finish_def terminal_def set_event_def set_op_event_def SetFinished_def)
  have q: "query net_three_chains 0 = EVENT_SCHEDULED"
      "query net_three_chains 1 = EVENT_INITIALIZED"
      "terminal (query net_three_chains 2)" "query net_three_chains 2 = EVENT_FAILED"
      "tasksNum net_three_chains = 3"
    by (simp_all add: query_def Query_def event_def ex_defs net_three_chains_def terminal_def
        tasksNum_def)
  from finalizeEvents_terminal[OF w f] q
  have "Some (event net' 0) =
          Finish (completes env_ok (lastTaskOpId net_three_chains 0)) (event net_three_chains 0)"
    and "event net' 1 = SetFinished None (event net_three_chains 1)"
    and "event net' 2 = event net_three_chains 2"
    by simp_all
  then have "query net' 0 = EVENT_SUCCESS" "query net' 1 = EVENT_SUCCESS"
      "query net' 2 = EVENT_FAILED"
    using q(4) by (simp_all add: query_def Query_def SetFinished_def Finish_def terminal_def
        ex_defs net_three_chains_def event_def lastTaskOpId_def)
  then show ?thesis using w f by simp
qed

lemma wf_net_hd:
  "wf_net net \<Longrightarrow> task_id < length (chains net) \<Longrightarrow>
   hd (chains net ! task_id) < length (operators net)"
  by (auto simp: wf_net_def list_all_iff dest!: nth_mem[of task_id "chains net"])

subsection \<open>updateParentCount\<close>

text \<open>
  Claim C6. \<open>updateParentCount\<close> stores the chain's parent counter decremented by one.
  From a positive counter the enforce passes and the call returns the new value, the old
  count minus one; from a zero counter the call fails. A value it returns is never
  negative and is the stored counter. (One thread is modelled: the atomicity of the
  decrement is not part of the statement.)
\<close>

theorem updateParentCount_decrements:
  assumes "wf_net net" and "child_id < tasksNum net"
  shows "getParentCount (snd (updateParentCount net child_id)) child_id
           = getParentCount net child_id - 1 \<and>
         (0 < getParentCount net child_id \<longrightarrow>
            fst (updateParentCount net child_id) = Inr (getParentCount net child_id - 1)) \<and>
         (getParentCount net child_id = 0 \<longrightarrow>
            fst (updateParentCount net child_id) = Inl (ParentCountNegative (- 1))) \<and>
         (\<forall>n. fst (updateParentCount net child_id) = Inr n \<longrightarrow>
            0 \<le> n \<and> n = getParentCount (snd (updateParentCount net child_id)) child_id)"
proof -
  have "hd (chains net ! child_id) < length (operator_nodes net)"
    using assms wf_net_hd[of net child_id] by (simp add: tasksNum_def wf_net_def)
  then show ?thesis
    by (auto simp: updateParentCount_def getParentCount_def Let_def)
qed

lemma reset_diamond_nodes: "operator_nodes (reset env_ok net_diamond) = 
   [\<lparr>runtime_parent_count = 0, scheduled = False\<rparr>, \<lparr>runtime_parent_count = 1, scheduled = False\<rparr>,
    \<lparr>runtime_parent_count = 1, scheduled = False\<rparr>, \<lparr>runtime_parent_count = 2, scheduled = False\<rparr>]"
  by (simp add: reset_def reset_task_def tasksNum_def parents_def ex_defs net_diamond_def
      upt_rec Let_def)

lemma reset_diamond_chains: "chains (reset env_ok net_diamond) = [[0], [1], [2], [3]]"
   "length (operators (reset env_ok net_diamond)) = 4"
   "chain_nodes (reset env_ok net_diamond) = chain_nodes net_diamond"
  by (simp_all add: reset_def reset_task_def tasksNum_def parents_def ex_defs net_diamond_def
      upt_rec Let_def)

theorem updateParentCount_decrements_witness:
  "wf_net (reset env_ok net_diamond) \<and> 3 < tasksNum (reset env_ok net_diamond) \<and>
   getParentCount (reset env_ok net_diamond) 3 = 2 \<and>
   fst (updateParentCount (reset env_ok net_diamond) 3) = Inr 1 \<and>
   getParentCount (snd (updateParentCount (reset env_ok net_diamond) 3)) 3 = 1 \<and>
   getParentCount (reset env_ok net_diamond) 0 = 0 \<and>
   fst (updateParentCount (reset env_ok net_diamond) 0) = Inl (ParentCountNegative (- 1))"
proof -
  let ?net = "reset env_ok net_diamond"
  have w: "wf_net ?net"
    by (simp add: wf_net_def reset_diamond_nodes reset_diamond_chains)
       (simp add: ex_defs net_diamond_def)
  have t: "3 < tasksNum ?net" "0 < tasksNum ?net"
    by (simp_all add: tasksNum_def reset_diamond_chains)
  have c: "getParentCount ?net 3 = 2" "getParentCount ?net 0 = 0"
    by (simp_all add: getParentCount_def reset_diamond_nodes reset_diamond_chains)
  show ?thesis
    using updateParentCount_decrements[OF w t(1)] updateParentCount_decrements[OF w t(2)] w t c
    by simp
qed

subsection \<open>pool\<close>

text \<open>
  Claim C9, as amended. For a device option whose type is neither in the CPU family nor
  the accelerator type, \<open>pool\<close> fails with the unsupported-device error when
  \<open>use_single_pool\<close> is off; when it is on, \<open>pool\<close> does not look at the device type and
  returns the CPU pool with id \<open>-1\<close> and size \<open>num_workers\<close>.
\<close>

theorem pool_unsupported_device:
  assumes "device_type d \<notin> cpu_types" and "device_type d \<noteq> PROTO_CUDA"
  shows "(\<not> use_single_pool net \<longrightarrow>
            pool env net d = Inl (UnsupportedDeviceType (device_type d))) \<and>
         (use_single_pool net \<longrightarrow>
            pool env net d =
              Inr (fst (poolGetter env net (cpu_pools net) PROTO_CPU (- 1) (num_workers net)),
                   net\<lparr>cpu_pools :=
                     snd (poolGetter env net (cpu_pools net) PROTO_CPU (- 1) (num_workers net))\<rparr>))"
  using assms by (simp add: pool_def split_beta)

theorem pool_unsupported_device_witness:
  "device_type other_option \<notin> cpu_types \<and> device_type other_option \<noteq> PROTO_CUDA \<and>
   \<not> use_single_pool net_three_chains \<and>
   pool env_ok net_three_chains other_option = Inl (UnsupportedDeviceType (PROTO_OTHER 4)) \<and>
   use_single_pool net_single_pool \<and>
   map_sum id fst (pool env_ok net_single_pool other_option) =
     Inr (Some \<lparr>pool_device_type = PROTO_CPU, pool_device_id = - 1, pool_size = - 1,
                pool_per_net = False\<rparr>)"
proof -
  have h: "device_type other_option \<notin> cpu_types" "device_type other_option \<noteq> PROTO_CUDA"
    by (simp_all add: other_option_def cpu_types_def)
  have u: "\<not> use_single_pool net_three_chains" "use_single_pool net_single_pool"
    by (simp_all add: ex_defs net_three_chains_def net_single_pool_def other_option_def)
  show ?thesis
    using pool_unsupported_device[OF h, of net_three_chains env_ok]
      pool_unsupported_device[OF h, of net_single_pool env_ok] h u
    by (simp add: poolGetter_def)
       (simp add: ex_defs net_three_chains_def net_single_pool_def other_option_def)
qed

text \<open>With \<open>use_single_pool\<close> on, a device type that is neither of the CPU family nor the
  accelerator gets the single CPU pool, not an error.\<close>

theorem pool_single_pool_counterexample:
  "device_type other_option \<notin> cpu_types \<and> device_type other_option \<noteq> PROTO_CUDA \<and>
   map_sum id fst (pool env_ok net_single_pool other_option) =
     Inr (Some \<lparr>pool_device_type = PROTO_CPU, pool_device_id = - 1, pool_size = - 1,
                pool_per_net = False\<rparr>)"
  by (simp add: pool_def poolGetter_def ex_defs net_three_chains_def net_single_pool_def
      other_option_def cpu_types_def)

subsection \<open>The events disabled at construction\<close>

lemma disable_fold_length:
  "length (fold (\<lambda>op_id ops'. if op_id = l \<or> op_id = h then ops'
                     else ops'[op_id := DisableEvent (ops' ! op_id)]) xs ops) = length ops"
  by (induction xs arbitrary: ops) auto

lemma disable_fold_nth:
  "i < length ops \<Longrightarrow>
   fold (\<lambda>op_id ops'. if op_id = l \<or> op_id = h then ops'
            else ops'[op_id := DisableEvent (ops' ! op_id)]) xs ops ! i
   = (if i \<in> set xs \<and> i \<noteq> l \<and> i \<noteq> h then DisableEvent (ops ! i) else ops ! i)"
proof (induction xs arbitrary: ops)
  case Nil
  then show ?case by simp
next
  case (Cons x xs)
  show ?case
  proof (cases "x = i")
    case True
    then show ?thesis using Cons.prems Cons.IH[of "ops[x := DisableEvent (ops ! x)]"] Cons.IH[of ops]
      by (simp add: DisableEvent_def)
  next
    case False
    then show ?thesis using Cons.prems Cons.IH[of "ops[x := DisableEvent (ops ! x)]"] Cons.IH[of ops]
      by simp
  qed
qed

lemma disable_inner_events_nth:
  "i < length ops \<Longrightarrow>
   disable_inner_events chain ops ! i
   = (if i \<in> set chain \<and> i \<noteq> last chain \<and> i \<noteq> hd chain then DisableEvent (ops ! i)
      else ops ! i)"
  by (simp add: disable_inner_events_def disable_fold_nth)

lemma disable_inner_events_length: "length (disable_inner_events chain ops) = length ops"
  by (simp add: disable_inner_events_def disable_fold_length)

lemma disable_chains_length:
  "length (fold disable_inner_events chs ops) = length ops"
  by (induction chs arbitrary: ops) (auto simp: disable_inner_events_length)

lemma disable_chains_nth:
  "i < length ops \<Longrightarrow>
   fold disable_inner_events chs ops ! i
   = (if \<exists>chain \<in> set chs. i \<in> set chain \<and> i \<noteq> last chain \<and> i \<noteq> hd chain
      then DisableEvent (ops ! i) else ops ! i)"
proof (induction chs arbitrary: ops)
  case Nil
  then show ?case by simp
next
  case (Cons c chs)
  have l: "i < length (disable_inner_events c ops)"
    using Cons.prems by (simp add: disable_inner_events_length)
  show ?case
    using Cons.IH[OF l] Cons.prems
    by (auto simp: disable_inner_events_nth DisableEvent_def)
qed

text \<open>
  Claim C7, as amended. At construction, when \<open>report_stats\<close> is off, the operators whose
  event is disabled are those that are neither the first nor the last of a chain they
  belong to; every other operator, the tail of each chain among them, is left as it was,
  and \<open>events_\<close> holds the tail events. With \<open>report_stats\<close> on nothing is disabled.
\<close>

theorem init_events_disables_inner:
  assumes "i < length (operators net)"
  shows "fst (init_events net) = map last (chains net) \<and>
         operators (snd (init_events net)) ! i =
           (if \<not> report_stats net \<and>
               (\<exists>chain \<in> set (chains net). i \<in> set chain \<and> i \<noteq> last chain \<and> i \<noteq> hd chain)
            then DisableEvent (operators net ! i) else operators net ! i)"
proof (cases "report_stats net")
  case True
  have "fold (\<lambda>chain ops. ops) chs ops = ops" for chs :: "nat list list" and ops :: "OperatorBase list"
    by (induction chs) auto
  then show ?thesis using True by (simp add: init_events_def)
next
  case False
  have "(\<lambda>chain ops. if \<not> report_stats net then disable_inner_events chain ops else ops)
          = disable_inner_events"
    using False by (intro ext) simp
  then show ?thesis using False assms by (simp add: init_events_def disable_chains_nth)
qed

theorem init_events_disables_inner_witness:
  "event_disabled (operators (snd (init_events (net_linear True))) ! 1) \<and>
   \<not> event_disabled (operators (snd (init_events (net_linear True))) ! 0) \<and>
   \<not> event_disabled (operators (snd (init_events (net_linear True))) ! 2) \<and>
   fst (init_events (net_linear True)) = [2]"
  using init_events_disables_inner[of 0 "net_linear True"]
    init_events_disables_inner[of 1 "net_linear True"]
    init_events_disables_inner[of 2 "net_linear True"]
  by (simp add: ex_defs net_linear_def DisableEvent_def)

text \<open>In the chain A, B, C without profiling, the event of C stays enabled.\<close>

theorem init_events_tail_counterexample:
  "\<not> report_stats (net_linear True) \<and> chains (net_linear True) = [[0, 1, 2]] \<and>
   map event_disabled (operators (snd (init_events (net_linear True)))) = [False, True, False]"
  by (simp add: init_events_def disable_inner_events_def DisableEvent_def ex_defs net_linear_def)

subsection \<open>The batch and the pairwise schedulability check\<close>

lemma canSchedule_loop_live:
  assumes "\<forall>pt ct a. \<not> CanSchedule env pt EVENT_FAILED ct a"
  shows "canSchedule_loop env net (hd (chains net ! task_id)) None parent_failed ps =
     Inr (list_all (\<lambda>p. canSchedule_parent_child env net p task_id) ps,
          case find (\<lambda>p. \<not> canSchedule_parent_child env net p task_id) ps of
            None \<Rightarrow> parent_failed
          | Some p \<Rightarrow> if query net p = EVENT_FAILED then map_option (\<lambda>_. True) parent_failed
                      else parent_failed)"
proof (induction ps)
  case Nil
  then show ?case by simp
next
  case (Cons p ps)
  show ?case
  proof (cases "query net p = EVENT_FAILED")
    case True
    then have "\<not> canSchedule_parent_child env net p task_id"
      using assms by (simp add: canSchedule_parent_child_def query_def)
    then show ?thesis using True
      by (cases parent_failed) (simp_all add: query_def event_def Query_def)
  next
    case False
    then show ?thesis using Cons.IH
      by (simp add: canSchedule_parent_child_def query_def event_def Query_def Let_def)
  qed
qed

text \<open>
  Claim C5, as amended. Given that the policy table returns false for a \<open>FAILED\<close> parent,
  the batch check over the live parent statuses returns true exactly when the pairwise
  check returns true for every parent of the task. It stops at the first parent, in the
  order of \<open>parents\<close>, that the pairwise check rejects, and sets \<open>parent_failed\<close> exactly
  when that parent is \<open>FAILED\<close>; otherwise the out-parameter keeps its value.
\<close>

theorem canSchedule_batch_pairwise:
  assumes "\<forall>pt ct a. \<not> CanSchedule env pt EVENT_FAILED ct a"
  shows "\<exists>b pf. canSchedule env net task_id None (Some parent_failed) = Inr (b, Some pf) \<and>
     (b \<longleftrightarrow> (\<forall>p \<in> set (parents net task_id). canSchedule_parent_child env net p task_id)) \<and>
     pf = (case find (\<lambda>p. \<not> canSchedule_parent_child env net p task_id) (parents net task_id) of
             None \<Rightarrow> parent_failed
           | Some p \<Rightarrow> query net p = EVENT_FAILED \<or> parent_failed)"
  unfolding canSchedule_def canSchedule_loop_live[OF assms]
  by (auto simp: list_all_iff split: option.splits)

lemma Event_CanSchedule_failed: "\<not> Event_CanSchedule pt EVENT_FAILED ct a"
  by (simp add: Event_CanSchedule_def)

theorem canSchedule_batch_pairwise_witness:
  "(\<forall>pt ct a. \<not> CanSchedule env_ok pt EVENT_FAILED ct a) \<and>
   canSchedule env_ok (net_join EVENT_SUCCESS EVENT_FAILED) 2 None (Some False)
     = Inr (False, Some True) \<and>
   canSchedule_parent_child env_ok (net_join EVENT_SUCCESS EVENT_FAILED) 0 2 \<and>
   \<not> canSchedule_parent_child env_ok (net_join EVENT_SUCCESS EVENT_FAILED) 1 2"
proof -
  have h: "\<forall>pt ct a. \<not> CanSchedule env_ok pt EVENT_FAILED ct a"
    by (simp add: env_ok_def mk_env_def Event_CanSchedule_failed)
  have p: "parents (net_join EVENT_SUCCESS EVENT_FAILED) 2 = [0, 1]"
    by (simp add: parents_def ex_defs net_join_def)
  have c: "canSchedule_parent_child env_ok (net_join EVENT_SUCCESS EVENT_FAILED) 0 2"
      "\<not> canSchedule_parent_child env_ok (net_join EVENT_SUCCESS EVENT_FAILED) (Suc 0) 2"
      "query (net_join EVENT_SUCCESS EVENT_FAILED) (Suc 0) = EVENT_FAILED"
    by (simp_all add: canSchedule_parent_child_def event_def query_def Query_def GetType_def
        Event_CanSchedule_def ex_defs net_join_def)
  from canSchedule_batch_pairwise[OF h, of "net_join EVENT_SUCCESS EVENT_FAILED" 2 False]
  have "canSchedule env_ok (net_join EVENT_SUCCESS EVENT_FAILED) 2 None (Some False)
     = Inr (False, Some True)"
    by (auto simp: p c)
  then show ?thesis using h c by simp
qed

text \<open>The first parent is \<open>SCHEDULED\<close> and the child does not support asynchronous
  scheduling; the second parent is \<open>FAILED\<close>. The batch check returns false at the first
  parent and leaves \<open>parent_failed\<close> as it was.\<close>

theorem canSchedule_parent_failed_counterexample:
  "parents (net_join EVENT_SCHEDULED EVENT_FAILED) 2 = [0, 1] \<and>
   query (net_join EVENT_SCHEDULED EVENT_FAILED) 1 = EVENT_FAILED \<and>
   canSchedule env_ok (net_join EVENT_SCHEDULED EVENT_FAILED) 2 None (Some False)
     = Inr (False, Some False)"
  by (simp add: canSchedule_def parents_def query_def Query_def event_def GetType_def
      Event_CanSchedule_def ex_defs net_join_def)

subsection \<open>What run leaves alone\<close>

lemma without_events_set_op_event [simp]:
  "without_events (set_op_event i ev net) = without_events net"
proof -
  have "map (\<lambda>op. op\<lparr>op_event := blank_event\<rparr>)
          ((operators net)[i := (operators net ! i)\<lparr>op_event := ev\<rparr>])
        = map (\<lambda>op. op\<lparr>op_event := blank_event\<rparr>) (operators net)"
  proof (cases "i < length (operators net)")
    case True
    then show ?thesis by (simp add: map_update list_update_same_conv)
  next
    case False
    then have "length (operators net) \<le> i" by simp
    then show ?thesis by (simp add: list_update_beyond)
  qed
  then show ?thesis by (simp add: without_events_def set_op_event_def)
qed

lemma without_events_set_event [simp]:
  "without_events (set_event task_id ev net) = without_events net"
  by (simp add: set_event_def)

lemma without_events_setTaskErrorMessage [simp]:
  "without_events (setTaskErrorMessage task_id msg net) = without_events net"
  by (simp add: setTaskErrorMessage_def)

lemma without_events_fields:
  assumes "without_events net' = without_events net"
  shows "chains net' = chains net" and "chain_nodes net' = chain_nodes net"
    and "operator_nodes net' = operator_nodes net"
    and "report_stats net' = report_stats net" and "finish_chain net' = finish_chain net"
    and "caught_exception net' = caught_exception net" and "success net' = success net"
    and "length (operators net') = length (operators net)"
proof -
  show "chains net' = chains net"
    using arg_cong[OF assms, of chains] by (simp add: without_events_def)
  show "chain_nodes net' = chain_nodes net"
    using arg_cong[OF assms, of chain_nodes] by (simp add: without_events_def)
  show "operator_nodes net' = operator_nodes net"
    using arg_cong[OF assms, of operator_nodes] by (simp add: without_events_def)
  show "report_stats net' = report_stats net"
    using arg_cong[OF assms, of report_stats] by (simp add: without_events_def)
  show "finish_chain net' = finish_chain net"
    using arg_cong[OF assms, of finish_chain] by (simp add: without_events_def)
  show "caught_exception net' = caught_exception net"
    using arg_cong[OF assms, of caught_exception] by (simp add: without_events_def)
  show "success net' = success net"
    using arg_cong[OF assms, of success] by (simp add: without_events_def)
  show "length (operators net') = length (operators net)"
    using arg_cong[OF assms, of "\<lambda>n. length (operators n)"] by (simp add: without_events_def)
qed

lemma without_events_static:
  assumes "without_events net' = without_events net" and "j < length (operators net)"
  shows "has_debug_def (operators net' ! j) = has_debug_def (operators net ! j)"
    and "op_type (operators net' ! j) = op_type (operators net ! j)"
    and "device_option (operators net' ! j) = device_option (operators net ! j)"
proof -
  have l: "j < length (operators net')"
    using without_events_fields(8)[OF assms(1)] assms(2) by simp
  have "has_debug_def (operators (without_events net') ! j)
        = has_debug_def (operators (without_events net) ! j)"
    by (simp only: assms(1))
  then show "has_debug_def (operators net' ! j) = has_debug_def (operators net ! j)"
    using l assms(2) by (simp add: without_events_def)
  have "op_type (operators (without_events net') ! j)
        = op_type (operators (without_events net) ! j)"
    by (simp only: assms(1))
  then show "op_type (operators net' ! j) = op_type (operators net ! j)"
    using l assms(2) by (simp add: without_events_def)
  have "device_option (operators (without_events net') ! j)
        = device_option (operators (without_events net) ! j)"
    by (simp only: assms(1))
  then show "device_option (operators net' ! j) = device_option (operators net ! j)"
    using l assms(2) by (simp add: without_events_def)
qed

lemma without_events_type_or_unknown:
  assumes "without_events net' = without_events net" and "j < length (operators net)"
  shows "type_or_unknown (operators net' ! j) = type_or_unknown (operators net ! j)"
  using without_events_static(1,2)[OF assms] by (simp add: type_or_unknown_def)

lemma run_op_frame:
  assumes "run_op env task_id stream_id op_id net = Some (r, net')"
  shows "without_events net' = without_events net"
proof -
  obtain res ev where ra:
    "op_RunAsync env op_id stream_id (op_event (operators net ! op_id)) = (res, ev)"
    by (cases "op_RunAsync env op_id stream_id (op_event (operators net ! op_id))")
  show ?thesis
  proof (cases res)
    case (Inl e)
    then show ?thesis using assms ra by (simp add: run_op_def) auto
  next
    case (Inr ok)
    then show ?thesis using assms ra
      by (auto simp: run_op_def Let_def split: if_splits option.splits)
  qed
qed

lemma run_ops_frame:
  "run_ops env task_id stream_id ops net = Some (r, net') \<Longrightarrow>
   without_events net' = without_events net"
proof (induction ops arbitrary: net)
  case Nil
  then show ?case by simp
next
  case (Cons op_id ops)
  from Cons.prems obtain r1 net1 where
    s1: "run_op env task_id stream_id op_id net = Some (r1, net1)"
    by (cases "run_op env task_id stream_id op_id net") auto
  have f1: "without_events net1 = without_events net" using s1 by (rule run_op_frame)
  show ?case
  proof (cases "r1 = Inr True")
    case True
    then have "run_ops env task_id stream_id ops net1 = Some (r, net')"
      using Cons.prems s1 by simp
    from Cons.IH[OF this] f1 show ?thesis by simp
  next
    case False
    then have "Some (r, net') = Some (r1, net1)"
      using Cons.prems s1 by (cases r1) (auto split: bool.splits)
    then show ?thesis using f1 by simp
  qed
qed

lemma run_ops_append:
  "run_ops env task_id stream_id pre net = Some (Inr True, net1) \<Longrightarrow>
   run_ops env task_id stream_id (pre @ rest) net = run_ops env task_id stream_id rest net1"
proof (induction pre arbitrary: net)
  case Nil
  then show ?case by simp
next
  case (Cons op_id pre)
  from Cons.prems obtain r1 net2 where
    s1: "run_op env task_id stream_id op_id net = Some (r1, net2)"
    by (cases "run_op env task_id stream_id op_id net") auto
  show ?case
  proof (cases "r1 = Inr True")
    case True
    then have "run_ops env task_id stream_id pre net2 = Some (Inr True, net1)"
      using Cons.prems s1 by simp
    from Cons.IH[OF this] show ?thesis using s1 True by simp
  next
    case False
    then have "Some (Inr True, net1) = Some (r1, net2)"
      using Cons.prems s1 by (cases r1) (auto split: bool.splits)
    then show ?thesis using False by simp
  qed
qed

lemma run_try_frame:
  assumes "run_try env task_id stream_id net = Some (r, net')"
  shows "without_events net' = without_events net"
proof (cases "if \<not> finish_chain net
            then asyncWait env net task_id stream_id (parents net task_id) else None")
  case (Some e)
  then show ?thesis using assms by (simp add: run_try_def)
next
  case None
  then obtain r1 net1 where
    ro: "run_ops env task_id stream_id (chains net ! task_id) net = Some (r1, net1)"
    using assms by (cases "run_ops env task_id stream_id (chains net ! task_id) net")
      (auto simp: run_try_def)
  have f1: "without_events net1 = without_events net" using ro by (rule run_ops_frame)
  show ?thesis
  proof (cases r1)
    case (Inl thrown)
    then show ?thesis using assms None ro f1 by (simp add: run_try_def)
  next
    case (Inr b)
    then show ?thesis using assms None ro f1
      by (cases b) (auto simp: run_try_def split: if_splits)
  qed
qed

subsection \<open>An operator that returns false\<close>

lemma event_set_event:
  "last (chains net ! task_id) < length (operators net) \<Longrightarrow>
   event (set_event task_id ev net) task_id = ev"
  by (simp add: event_def set_event_def set_op_event_def)

lemma run_op_false:
  assumes "op_RunAsync env op_id stream_id (op_event (operators net ! op_id)) = (Inr False, ev)"
  shows "run_op env task_id stream_id op_id net =
     Some (Inr False,
       setTaskErrorMessage task_id
         (''Failed to execute an op: '' @ type_or_unknown (operators (set_op_event op_id ev net) ! op_id))
         (set_op_event op_id ev net))"
  using assms by (simp add: run_op_def Let_def)

text \<open>
  Claim C2, as amended. When the operators before \<open>op_id\<close> in the chain return true and
  \<open>op_id\<close> returns false, \<open>run\<close> returns false after \<open>setTaskErrorMessage\<close> with the message
  "Failed to execute an op: " followed by the operator's type when it has a debug def and
  by " unknown" (with a leading space) otherwise. The chain's tail event becomes \<open>FAILED\<close>
  with that message when its status is still \<open>INITIALIZED\<close>, and nothing is written
  otherwise.
\<close>

theorem run_op_returns_false:
  fixes net :: AsyncNetBase
  assumes "wf_net net" and "task_id < tasksNum net"
    and "chains net ! task_id = pre @ op_id # post"
    and "finish_chain net \<or> asyncWait env net task_id stream_id (parents net task_id) = None"
    and "run_ops env task_id stream_id pre net = Some (Inr True, net1)"
    and "op_RunAsync env op_id stream_id (op_event (operators net1 ! op_id)) = (Inr False, ev)"
  defines "msg \<equiv> ''Failed to execute an op: '' @
                   (if has_debug_def (operators net ! op_id) then op_type (operators net ! op_id)
                    else '' unknown'')"
    and "net2 \<equiv> set_op_event op_id ev net1"
  shows "run env task_id stream_id net = Some (False, setTaskErrorMessage task_id msg net2) \<and>
         (query net2 task_id = EVENT_INITIALIZED \<longrightarrow>
            event (setTaskErrorMessage task_id msg net2) task_id
              = (event net2 task_id)\<lparr>event_status := EVENT_FAILED, err_msg := msg\<rparr>) \<and>
         (query net2 task_id \<noteq> EVENT_INITIALIZED \<longrightarrow>
            setTaskErrorMessage task_id msg net2 = net2)"
proof -
  have f1: "without_events net1 = without_events net" using assms(5) by (rule run_ops_frame)
  have f2: "without_events net2 = without_events net" using f1 by (simp add: net2_def)
  have mem: "op_id \<in> set (chains net ! task_id)" using assms(3) by simp
  have lt: "op_id < length (operators net)"
    using assms(1,2) mem nth_mem[of task_id "chains net"]
    by (auto simp: wf_net_def list_all_iff tasksNum_def)
  have m: "''Failed to execute an op: '' @ type_or_unknown (operators net2 ! op_id) = msg"
    using without_events_type_or_unknown[OF f2 lt] by (simp add: msg_def type_or_unknown_def)
  have s: "run_op env task_id stream_id op_id net1
             = Some (Inr False, setTaskErrorMessage task_id msg net2)"
    using run_op_false[OF assms(6), of task_id] m by (simp add: net2_def)
  have "run_ops env task_id stream_id (chains net ! task_id) net
          = run_ops env task_id stream_id (op_id # post) net1"
    using run_ops_append[OF assms(5)] assms(3) by simp
  then have ro: "run_ops env task_id stream_id (chains net ! task_id) net
          = Some (Inr False, setTaskErrorMessage task_id msg net2)"
    using s by simp
  have w: "(if \<not> finish_chain net
            then asyncWait env net task_id stream_id (parents net task_id) else None) = None"
    using assms(4) by auto
  have r: "run env task_id stream_id net = Some (False, setTaskErrorMessage task_id msg net2)"
    by (simp add: run_def run_try_def w ro)
  have tail: "last (chains net2 ! task_id) < length (operators net2)"
    using wf_net_last[OF assms(1), of task_id] assms(2)
      without_events_fields(1,8)[OF f2] by (simp add: tasksNum_def)
  have a: "query net2 task_id = EVENT_INITIALIZED \<longrightarrow>
            event (setTaskErrorMessage task_id msg net2) task_id
              = (event net2 task_id)\<lparr>event_status := EVENT_FAILED, err_msg := msg\<rparr>"
    using tail by (simp add: setTaskErrorMessage_def event_set_event SetFinished_def)
  have b: "query net2 task_id \<noteq> EVENT_INITIALIZED \<longrightarrow>
            setTaskErrorMessage task_id msg net2 = net2"
    by (simp add: setTaskErrorMessage_def)
  show ?thesis using r a b by simp
qed

lemma run_linear_fail:
  "run (env_fail_at 1) 0 0 (net_linear dbg) =
     Some (False, (net_linear dbg)\<lparr>operators :=
       [mk_op ''A'' True cpu_option EVENT_SUCCESS,
        mk_op ''B'' dbg cpu_option EVENT_INITIALIZED,
        (mk_op ''C'' True cpu_option EVENT_FAILED)\<lparr>op_event :=
           \<lparr>event_device_option = cpu_option, event_status = EVENT_FAILED,
            err_msg = ''Failed to execute an op: '' @ (if dbg then ''B'' else '' unknown'')\<rparr>\<rparr>]\<rparr>)"
  by (simp add: run_eval env_fail_at_def mk_env_def net_linear_def mk_net_def mk_op_def
      no_edges_def)

theorem run_op_returns_false_witness:
  "wf_net (net_linear True) \<and> 0 < tasksNum (net_linear True) \<and>
   chains (net_linear True) ! 0 = [0] @ 1 # [2] \<and>
   fst (the (run (env_fail_at 1) 0 0 (net_linear True))) = False \<and>
   query (snd (the (run (env_fail_at 1) 0 0 (net_linear True)))) 0 = EVENT_FAILED \<and>
   err_msg (event (snd (the (run (env_fail_at 1) 0 0 (net_linear True)))) 0)
     = ''Failed to execute an op: B''"
proof -
  let ?net = "net_linear True"
  let ?env = "env_fail_at 1"
  let ?net1 = "set_op_event 0 ((op_event (operators ?net ! 0))\<lparr>event_status := EVENT_SUCCESS\<rparr>) ?net"
  let ?ev = "op_event (operators ?net1 ! 1)"
  have w: "wf_net ?net" and t: "0 < tasksNum ?net"
    by (simp_all add: wf_net_def tasksNum_def net_linear_def mk_net_def mk_op_def no_edges_def)
  have c: "chains ?net ! 0 = [0] @ 1 # [2]" by (simp add: net_linear_def mk_net_def)
  have a: "finish_chain ?net \<or> asyncWait ?env ?net 0 0 (parents ?net 0) = None"
    by (simp add: asyncWait_def env_fail_at_def mk_env_def)
  have p: "run_ops ?env 0 0 [0] ?net = Some (Inr True, ?net1)"
    by (simp add: run_op_def env_fail_at_def mk_env_def net_linear_def mk_net_def mk_op_def
        set_op_event_def Let_def)
  have f: "op_RunAsync ?env 1 0 (op_event (operators ?net1 ! 1)) = (Inr False, ?ev)"
    by (simp add: env_fail_at_def mk_env_def)
  have q: "query (set_op_event 1 ?ev ?net1) 0 = EVENT_INITIALIZED"
    by (simp add: query_def Query_def event_def set_op_event_def net_linear_def mk_net_def mk_op_def)
  from run_op_returns_false[OF w t c a p f] q
  have r: "run ?env 0 0 ?net =
      Some (False, setTaskErrorMessage 0 (''Failed to execute an op: '' @
                   (if has_debug_def (operators ?net ! 1) then op_type (operators ?net ! 1)
                    else '' unknown'')) (set_op_event 1 ?ev ?net1))"
    and e: "event (setTaskErrorMessage 0 (''Failed to execute an op: '' @
                   (if has_debug_def (operators ?net ! 1) then op_type (operators ?net ! 1)
                    else '' unknown'')) (set_op_event 1 ?ev ?net1)) 0
         = (event (set_op_event 1 ?ev ?net1) 0)\<lparr>event_status := EVENT_FAILED,
              err_msg := ''Failed to execute an op: '' @
                   (if has_debug_def (operators ?net ! 1) then op_type (operators ?net ! 1)
                    else '' unknown'')\<rparr>"
    by simp_all
  have d: "has_debug_def (operators ?net ! 1)" "op_type (operators ?net ! 1) = ''B''"
    by (simp_all add: net_linear_def mk_net_def mk_op_def)
  show ?thesis using w t c r e d by (simp add: query_def Query_def)
qed

text \<open>For an operator without a debug def the message ends in two spaces and "unknown".\<close>

theorem run_unknown_message_counterexample:
  "\<not> has_debug_def (operators (net_linear False) ! 1) \<and>
   fst (the (run (env_fail_at 1) 0 0 (net_linear False))) = False \<and>
   err_msg (event (snd (the (run (env_fail_at 1) 0 0 (net_linear False)))) 0)
     = ''Failed to execute an op:  unknown'' \<and>
   err_msg (event (snd (the (run (env_fail_at 1) 0 0 (net_linear False)))) 0)
     \<noteq> ''Failed to execute an op: unknown''"
  unfolding run_linear_fail
  by (simp add: event_def net_linear_def mk_net_def mk_op_def)

subsection \<open>An exception inside run\<close>

lemma run_try_wait_throws:
  "\<not> finish_chain net \<Longrightarrow> asyncWait env net task_id stream_id (parents net task_id) = Some e \<Longrightarrow>
   run_try env task_id stream_id net = Some (Inl (e, None), net)"
  by (simp add: run_try_def)

lemma run_op_throws:
  "op_RunAsync env op_id stream_id (op_event (operators net ! op_id)) = (Inl e, ev) \<Longrightarrow>
   run_op env task_id stream_id op_id net = Some (Inl (e, Some op_id), set_op_event op_id ev net)"
  by (simp add: run_op_def)

lemma run_try_op_throws:
  assumes "chains net ! task_id = pre @ op_id # post"
    and "finish_chain net \<or> asyncWait env net task_id stream_id (parents net task_id) = None"
    and "run_ops env task_id stream_id pre net = Some (Inr True, net1)"
    and "op_RunAsync env op_id stream_id (op_event (operators net1 ! op_id)) = (Inl e, ev)"
  shows "run_try env task_id stream_id net
           = Some (Inl (e, Some op_id), set_op_event op_id ev net1)"
proof -
  have w: "(if \<not> finish_chain net
            then asyncWait env net task_id stream_id (parents net task_id) else None) = None"
    using assms(2) by auto
  have "run_ops env task_id stream_id (chains net ! task_id) net
          = run_ops env task_id stream_id (op_id # post) net1"
    using run_ops_append[OF assms(3)] assms(1) by simp
  then have "run_ops env task_id stream_id (chains net ! task_id) net
          = Some (Inl (e, Some op_id), set_op_event op_id ev net1)"
    using run_op_throws[OF assms(4), of task_id] by simp
  then show ?thesis by (simp add: run_try_def w)
qed

lemma query_storeExceptionPtr [simp]:
  "query (storeExceptionPtr env e net) task_id = query net task_id"
  "event (storeExceptionPtr env e net) task_id = event net task_id"
  "chains (storeExceptionPtr env e net) = chains net"
  "operators (storeExceptionPtr env e net) = operators net"
  by (simp_all add: storeExceptionPtr_def query_def event_def)

text \<open>
  Claim C3, as amended. Whatever is thrown inside the \<open>try\<close> block of \<open>run\<close> (while waiting
  for the parents or by an operator), \<open>run\<close> returns false. The exception goes into the
  error slot when the slot is empty and the build has exception pointers, and a filled
  slot keeps its first exception. \<open>run\<close> then calls \<open>setTaskErrorMessage\<close> with \<open>what()\<close> of
  the exception, or "Failed to execute task: unknown error", followed by ",  op " and the
  operator's type (" unknown" without a debug def) when an operator was executing: the
  chain's tail event becomes \<open>FAILED\<close> with that message when its status is still
  \<open>INITIALIZED\<close>, and nothing is written otherwise.
\<close>

theorem run_catches_exception:
  fixes net1 :: AsyncNetBase
  assumes "run_try env task_id stream_id net = Some (Inl (e, op), net1)"
  defines "msg \<equiv>
     (case e of std_exception what \<Rightarrow> what
              | unknown_exception \<Rightarrow> ''Failed to execute task: unknown error'')
     @ (case op of None \<Rightarrow> []
        | Some op_id \<Rightarrow> '',  op '' @
            (if has_debug_def (operators net1 ! op_id) then op_type (operators net1 ! op_id)
             else '' unknown''))"
    and "net2 \<equiv> storeExceptionPtr env e net1"
  shows "run env task_id stream_id net = Some (False, setTaskErrorMessage task_id msg net2) \<and>
         caught_exception (setTaskErrorMessage task_id msg net2)
           = (if CAFFE2_USE_EXCEPTION_PTR env \<and> caught_exception net = None then Some e
              else caught_exception net) \<and>
         (wf_net net \<and> task_id < tasksNum net \<and> query net1 task_id = EVENT_INITIALIZED \<longrightarrow>
            event (setTaskErrorMessage task_id msg net2) task_id
              = (event net1 task_id)\<lparr>event_status := EVENT_FAILED, err_msg := msg\<rparr>) \<and>
         (query net1 task_id \<noteq> EVENT_INITIALIZED \<longrightarrow>
            setTaskErrorMessage task_id msg net2 = net2)"
proof -
  have f: "without_events net1 = without_events net" using assms(1) by (rule run_try_frame)
  have m: "catch_msg net2 e op = msg"
    by (cases op) (simp_all add: catch_msg_def msg_def net2_def type_or_unknown_def)
  have r: "run env task_id stream_id net = Some (False, setTaskErrorMessage task_id msg net2)"
    using assms(1) m by (simp add: run_def Let_def net2_def)
  have "caught_exception (setTaskErrorMessage task_id msg net2) = caught_exception net2"
    by (rule without_events_fields(6)) simp
  also have "\<dots> = (if CAFFE2_USE_EXCEPTION_PTR env \<and> caught_exception net1 = None then Some e
              else caught_exception net1)"
    by (simp add: storeExceptionPtr_def net2_def)
  also have "caught_exception net1 = caught_exception net"
    using f by (rule without_events_fields(6))
  finally have c: "caught_exception (setTaskErrorMessage task_id msg net2)
           = (if CAFFE2_USE_EXCEPTION_PTR env \<and> caught_exception net = None then Some e
              else caught_exception net)" .
  have a: "event (setTaskErrorMessage task_id msg net2) task_id
              = (event net1 task_id)\<lparr>event_status := EVENT_FAILED, err_msg := msg\<rparr>"
    if h: "wf_net net \<and> task_id < tasksNum net \<and> query net1 task_id = EVENT_INITIALIZED"
  proof -
    have "last (chains net ! task_id) < length (operators net)"
      using h wf_net_last[of net task_id] by (simp add: tasksNum_def)
    then have tail: "last (chains net2 ! task_id) < length (operators net2)"
      using without_events_fields(1,8)[OF f] by (simp add: net2_def)
    show ?thesis using tail h
      by (simp add: setTaskErrorMessage_def event_set_event SetFinished_def net2_def)
  qed
  have b: "query net1 task_id \<noteq> EVENT_INITIALIZED \<longrightarrow>
            setTaskErrorMessage task_id msg net2 = net2"
    by (simp add: setTaskErrorMessage_def net2_def)
  show ?thesis using r c a b by blast
qed

lemma run_try_linear_throw:
  "run_try (env_throw_at 1 (std_exception ''boom'')) 0 0 (net_linear True) =
     Some (Inl (std_exception ''boom'', Some 1),
           (net_linear True)\<lparr>operators :=
             [mk_op ''A'' True cpu_option EVENT_SUCCESS,
              mk_op ''B'' True cpu_option EVENT_INITIALIZED,
              mk_op ''C'' True cpu_option EVENT_INITIALIZED]\<rparr>)"
  by (simp add: run_eval env_throw_at_def mk_env_def net_linear_def mk_net_def mk_op_def
      no_edges_def)

lemma run_try_caught_throw:
  "run_try (env_throw_at 0 unknown_exception) 0 0 net_caught =
     Some (Inl (unknown_exception, Some 0), net_caught)"
  by (simp add: run_eval env_throw_at_def mk_env_def net_caught_def net_linear_def mk_net_def
      mk_op_def no_edges_def)

theorem run_catches_exception_witness:
  "wf_net (net_linear True) \<and> 0 < tasksNum (net_linear True) \<and>
   fst (the (run (env_throw_at 1 (std_exception ''boom'')) 0 0 (net_linear True))) = False \<and>
   caught_exception (snd (the (run (env_throw_at 1 (std_exception ''boom'')) 0 0 (net_linear True))))
     = Some (std_exception ''boom'') \<and>
   query (snd (the (run (env_throw_at 1 (std_exception ''boom'')) 0 0 (net_linear True)))) 0
     = EVENT_FAILED \<and>
   err_msg (event (snd (the (run (env_throw_at 1 (std_exception ''boom'')) 0 0 (net_linear True)))) 0)
     = ''boom,  op B'' \<and>
   caught_exception net_caught = Some (std_exception ''boom'') \<and>
   fst (the (run (env_throw_at 0 unknown_exception) 0 0 net_caught)) = False \<and>
   caught_exception (snd (the (run (env_throw_at 0 unknown_exception) 0 0 net_caught)))
     = Some (std_exception ''boom'')"
proof -
  let ?net1 = "(net_linear True)\<lparr>operators :=
             [mk_op ''A'' True cpu_option EVENT_SUCCESS,
              mk_op ''B'' True cpu_option EVENT_INITIALIZED,
              mk_op ''C'' True cpu_option EVENT_INITIALIZED]\<rparr>"
  note r1 = run_catches_exception[OF run_try_linear_throw]
  note r2 = run_catches_exception[OF run_try_caught_throw]
  have w: "wf_net (net_linear True)" "0 < tasksNum (net_linear True)"
    by (simp_all add: wf_net_def tasksNum_def net_linear_def mk_net_def mk_op_def no_edges_def)
  have q: "query ?net1 0 = EVENT_INITIALIZED"
    by (simp add: query_def Query_def event_def net_linear_def mk_net_def mk_op_def)
  have c: "caught_exception net_caught = Some (std_exception ''boom'')"
      "caught_exception (net_linear True) = None"
      "CAFFE2_USE_EXCEPTION_PTR (env_throw_at 1 (std_exception ''boom''))"
    by (simp_all add: net_caught_def net_linear_def mk_net_def env_throw_at_def mk_env_def)
  have d: "has_debug_def (operators ?net1 ! 1)" "op_type (operators ?net1 ! 1) = ''B''"
    by (simp_all add: mk_op_def)
  show ?thesis using r1 r2 w q c d by (simp add: query_def Query_def)
qed

text \<open>The last operator of the chain records its event as scheduled and then throws:
  \<open>run\<close> returns false and captures the exception, and the task's event keeps its status
  and its empty message.\<close>

theorem run_message_guard_counterexample:
  "fst (the (run (env_move_throw 2 (std_exception ''boom'')) 0 0 (net_linear True))) = False \<and>
   caught_exception
     (snd (the (run (env_move_throw 2 (std_exception ''boom'')) 0 0 (net_linear True))))
     = Some (std_exception ''boom'') \<and>
   query (snd (the (run (env_move_throw 2 (std_exception ''boom'')) 0 0 (net_linear True)))) 0
     = EVENT_SCHEDULED \<and>
   err_msg (event
     (snd (the (run (env_move_throw 2 (std_exception ''boom'')) 0 0 (net_linear True)))) 0) = []"
  by (simp add: run_eval env_move_throw_def mk_env_def net_linear_def mk_net_def mk_op_def
      no_edges_def)

subsection \<open>The captured exception stays until reset\<close>

lemma finalizeEvents_loop_frame:
  "finalizeEvents_loop env ts net = Some net' \<Longrightarrow> without_events net' = without_events net"
proof (induction ts arbitrary: net)
  case Nil
  then show ?case by simp
next
  case (Cons t ts)
  show ?case
  proof (cases "query net t")
    case EVENT_SCHEDULED
    then obtain ev where "finalizeEvents_loop env ts (set_event t ev net) = Some net'"
      using Cons.prems by (auto split: option.splits)
    from Cons.IH[OF this] show ?thesis by simp
  next
    case EVENT_INITIALIZED
    then have "finalizeEvents_loop env ts
        (set_event t (SetFinished None (event net t)) net) = Some net'"
      using Cons.prems by simp
    from Cons.IH[OF this] show ?thesis by simp
  next
    case EVENT_SUCCESS
    then show ?thesis using Cons by simp
  next
    case EVENT_FAILED
    then show ?thesis using Cons by simp
  qed
qed

lemma finishTasks_frame:
  "finishTasks env ts net = Some net' \<Longrightarrow> without_events net' = without_events net"
proof (induction ts arbitrary: net)
  case Nil
  then show ?case by simp
next
  case (Cons t ts)
  then obtain ev where "finishTasks env ts (set_event t ev net) = Some net'"
    by (auto split: option.splits)
  from Cons.IH[OF this] show ?case by simp
qed

lemma run_keeps_slot:
  assumes "run env task_id stream_id net = Some (b, net')" and "caught_exception net = Some e"
  shows "caught_exception net' = Some e \<and> success net' = success net"
proof -
  from assms(1) obtain r net1 where t: "run_try env task_id stream_id net = Some (r, net1)"
    by (cases "run_try env task_id stream_id net") (auto simp: run_def)
  have f: "without_events net1 = without_events net" using t by (rule run_try_frame)
  have c1: "caught_exception net1 = Some e" "success net1 = success net"
    using without_events_fields(6,7)[OF f] assms(2) by simp_all
  show ?thesis
  proof (cases r)
    case (Inr b')
    then show ?thesis using assms(1) t c1 by (simp add: run_def)
  next
    case (Inl thrown)
    obtain e' op where th: "thrown = (e', op)" by (cases thrown)
    have s: "storeExceptionPtr env e' net1 = net1" using c1 by (simp add: storeExceptionPtr_def)
    have "net' = setTaskErrorMessage task_id (catch_msg net1 e' op) net1"
      using assms(1) t Inl th s by (simp add: run_def Let_def)
    then have "without_events net' = without_events net1" by simp
    then show ?thesis using without_events_fields(6,7)[of net' net1] c1 by simp
  qed
qed

lemma fold_reset_task_slot:
  "caught_exception (fold reset_task ts net) = caught_exception net \<and>
   success (fold reset_task ts net) = success net"
  by (induction ts arbitrary: net) (simp_all add: reset_task_def Let_def)

lemma updateParentCount_slot:
  "caught_exception (snd (updateParentCount net child_id)) = caught_exception net \<and>
   success (snd (updateParentCount net child_id)) = success net"
  by (simp add: updateParentCount_def Let_def)

lemma testAndSetScheduled_slot:
  "caught_exception (snd (testAndSetScheduled net task_id)) = caught_exception net \<and>
   success (snd (testAndSetScheduled net task_id)) = success net"
  by (simp add: testAndSetScheduled_def Let_def)

lemma pool_slot:
  "caught_exception (case pool env net d of Inl err \<Rightarrow> net | Inr (p, net') \<Rightarrow> net')
     = caught_exception net \<and>
   success (case pool env net d of Inl err \<Rightarrow> net | Inr (p, net') \<Rightarrow> net') = success net"
  by (simp add: pool_def Let_def split_beta)

lemma do_call_keeps_slot:
  assumes "c \<noteq> Reset" and "do_call env c net = Some net'" and "caught_exception net = Some e"
  shows "caught_exception net' = Some e \<and> success net' = success net"
proof (cases c)
  case Reset
  then show ?thesis using assms(1) by simp
next
  case (Run task_id stream_id)
  then obtain b where "run env task_id stream_id net = Some (b, net')"
    using assms(2) by auto
  then show ?thesis using assms(3) by (rule run_keeps_slot)
next
  case FinalizeEvents
  then have "without_events net' = without_events net"
    using assms(2) by (simp add: finalizeEvents_def finalizeEvents_loop_frame)
  then show ?thesis using without_events_fields(6,7)[of net' net] assms(3) by simp
next
  case (FinishTasks ts)
  then have "without_events net' = without_events net"
    using assms(2) by (simp add: finishTasks_frame)
  then show ?thesis using without_events_fields(6,7)[of net' net] assms(3) by simp
next
  case (UpdateParentCount child_id)
  then have "net' = snd (updateParentCount net child_id)" using assms(2) by simp
  then show ?thesis using updateParentCount_slot[where net=net and child_id=child_id] assms(3) by simp
next
  case (TestAndSetScheduled task_id)
  then have "net' = snd (testAndSetScheduled net task_id)" using assms(2) by simp
  then show ?thesis using testAndSetScheduled_slot[where net=net and task_id=task_id] assms(3) by simp
next
  case HandleRunError
  then show ?thesis using assms(2,3) by simp
next
  case (Pool d)
  then have "net' = (case pool env net d of Inl err \<Rightarrow> net | Inr (p, net') \<Rightarrow> net')"
    using assms(2) by simp
  then show ?thesis using pool_slot[where env=env and net=net and d=d] assms(3) by simp
qed

lemma do_calls_keeps_slot:
  "Reset \<notin> set calls \<Longrightarrow> do_calls env calls net = Some net' \<Longrightarrow>
   caught_exception net = Some e \<Longrightarrow>
   caught_exception net' = Some e \<and> success net' = success net"
proof (induction calls arbitrary: net)
  case Nil
  then show ?case by simp
next
  case (Cons c calls)
  from Cons.prems(2) obtain net1 where
    s1: "do_call env c net = Some net1" and s2: "do_calls env calls net1 = Some net'"
    by (cases "do_call env c net") auto
  have k: "caught_exception net1 = Some e \<and> success net1 = success net"
    using do_call_keeps_slot[OF _ s1 Cons.prems(3)] Cons.prems(1) by auto
  show ?case using Cons.IH[OF _ s2] k Cons.prems(1) by auto
qed

text \<open>
  Claim C10. \<open>handleRunError\<close> reads the error slot and writes nothing. Once an exception
  is in the slot, after any calls of the other member functions that do not include
  \<open>reset\<close>, \<open>handleRunError\<close> rethrows that same exception and the success flag is what it
  was; \<open>reset\<close> empties the slot and sets the flag, after which \<open>handleRunError\<close> returns
  true.
\<close>

theorem handleRunError_keeps_exception:
  assumes "CAFFE2_USE_EXCEPTION_PTR env" and "caught_exception net = Some e"
    and "Reset \<notin> set calls" and "do_calls env calls net = Some net'"
  shows "handleRunError env net = Inl e \<and> handleRunError env net' = Inl e \<and>
         caught_exception net' = Some e \<and> success net' = success net \<and>
         caught_exception (reset env net') = None \<and> success (reset env net') \<and>
         handleRunError env (reset env net') = Inr True"
proof -
  have k: "caught_exception net' = Some e" "success net' = success net"
    using do_calls_keeps_slot[OF assms(3,4,2)] by simp_all
  have r: "caught_exception (reset env net') = None" "success (reset env net')"
    using assms(1) by (simp_all add: reset_def Let_def fold_reset_task_slot)
  show ?thesis using assms(1,2) k r by (simp add: handleRunError_def)
qed

theorem handleRunError_keeps_exception_witness:
  "CAFFE2_USE_EXCEPTION_PTR env_ok \<and>
   caught_exception net_caught = Some (std_exception ''boom'') \<and>
   handleRunError env_ok net_caught = Inl (std_exception ''boom'') \<and>
   do_calls env_ok [HandleRunError, FinalizeEvents, Run 0 0, HandleRunError] net_caught \<noteq> None \<and>
   handleRunError env_ok
     (the (do_calls env_ok [HandleRunError, FinalizeEvents, Run 0 0, HandleRunError] net_caught))
     = Inl (std_exception ''boom'') \<and>
   handleRunError env_ok (reset env_ok
     (the (do_calls env_ok [HandleRunError, FinalizeEvents, Run 0 0, HandleRunError] net_caught)))
     = Inr True"
proof -
  let ?calls = "[HandleRunError, FinalizeEvents, Run 0 0, HandleRunError]"
  have m: "CAFFE2_USE_EXCEPTION_PTR env_ok" by (simp add: env_ok_def mk_env_def)
  have c: "caught_exception net_caught = Some (std_exception ''boom'')"
    by (simp add: net_caught_def)
  have n: "Reset \<notin> set ?calls" by simp
  obtain net' where d: "do_calls env_ok ?calls net_caught = Some net'"
    by (simp add: finalizeEvents_def tasksNum_def run_eval env_ok_def mk_env_def net_caught_def
        net_linear_def mk_net_def mk_op_def no_edges_def)
  show ?thesis using handleRunError_keeps_exception[OF m c n d] m c d by simp
qed

subsection \<open>Stream selection\<close>

lemma stream_loop_unchecked:
  "\<not> check_stream_status net \<Longrightarrow> g < length cs \<Longrightarrow>
   stream_loop env net task_id g cs
     = Some (Inr (cs ! g), cs[g := (cs ! g + 1) smod streams_per_gpu net])"
  by (subst stream_loop.simps) (simp add: Let_def)

lemma stream_loop_returns_free:
  assumes "stream_loop env net task_id g cs = Some (Inr sid, cs')" and "check_stream_status net"
  shows "isStreamFree env net task_id sid"
proof -
  have "check_stream_status net \<longrightarrow>
        (\<forall>sid cs'. y = (Inr sid, cs') \<longrightarrow> isStreamFree env net task_id sid)"
    if "stream_loop env net task_id g cs = Some y" for y
    using that
  proof (rule stream_loop.raw_induct
      [where P = "\<lambda>env net task_id g cs y. check_stream_status net \<longrightarrow>
          (\<forall>sid cs'. y = (Inr sid, cs') \<longrightarrow> isStreamFree env net task_id sid)", rotated])
    fix loop env net task_id g cs y
    assume IH: "\<And>env net task_id g cs y. loop env net task_id g cs = Some y \<Longrightarrow>
        check_stream_status net \<longrightarrow>
          (\<forall>sid cs'. y = (Inr sid, cs') \<longrightarrow> isStreamFree env net task_id sid)"
      and eq: "(if g < length cs
      then let stream_id = cs ! g;
               counters1 = cs[g := stream_id + 1];
               counters2 = counters1[g := counters1 ! g smod streams_per_gpu net]
           in if check_stream_status net \<and> \<not> isStreamFree env net task_id stream_id
              then loop env net task_id g counters2
              else Some (Inr stream_id, counters2)
      else Some (Inl OutOfRange, cs)) = Some y"
    show "check_stream_status net \<longrightarrow>
          (\<forall>sid cs'. y = (Inr sid, cs') \<longrightarrow> isStreamFree env net task_id sid)"
    proof (cases "g < length cs \<and> check_stream_status net \<and> \<not> isStreamFree env net task_id (cs ! g)")
      case True
      then have "loop env net task_id g (cs[g := (cs ! g + 1) smod streams_per_gpu net]) = Some y"
        using eq by (simp add: Let_def)
      from IH[OF this] show ?thesis .
    next
      case False
      then show ?thesis using eq by (auto simp: Let_def split: if_splits)
    qed
  qed
  from this[OF assms(1)] show ?thesis using assms(2) by simp
qed

lemma stream_loop_never_free:
  assumes "\<forall>sid. \<not> isStreamFree env net task_id sid" and "check_stream_status net"
    and "g < length cs"
  shows "stream_loop env net task_id g cs = None"
proof (rule ccontr)
  assume "stream_loop env net task_id g cs \<noteq> None"
  then obtain y where "stream_loop env net task_id g cs = Some y" by auto
  then have "\<not> ((\<forall>sid. \<not> isStreamFree env net task_id sid) \<and> check_stream_status net
                \<and> g < length cs)"
  proof (rule stream_loop.raw_induct
      [where P = "\<lambda>env net task_id g cs y.
         \<not> ((\<forall>sid. \<not> isStreamFree env net task_id sid) \<and> check_stream_status net
                \<and> g < length cs)", rotated])
    fix loop env net task_id g cs y
    assume IH: "\<And>env net task_id g cs y. loop env net task_id g cs = Some y \<Longrightarrow>
        \<not> ((\<forall>sid. \<not> isStreamFree env net task_id sid) \<and> check_stream_status net
                \<and> g < length cs)"
      and eq: "(if g < length cs
      then let stream_id = cs ! g;
               counters1 = cs[g := stream_id + 1];
               counters2 = counters1[g := counters1 ! g smod streams_per_gpu net]
           in if check_stream_status net \<and> \<not> isStreamFree env net task_id stream_id
              then loop env net task_id g counters2
              else Some (Inr stream_id, counters2)
      else Some (Inl OutOfRange, cs)) = Some y"
    show "\<not> ((\<forall>sid. \<not> isStreamFree env net task_id sid) \<and> check_stream_status net
                \<and> g < length cs)"
    proof
      assume a: "(\<forall>sid. \<not> isStreamFree env net task_id sid) \<and> check_stream_status net
                \<and> g < length cs"
      then have "loop env net task_id g (cs[g := (cs ! g + 1) smod streams_per_gpu net]) = Some y"
        using eq by (simp add: Let_def)
      from IH[OF this] a show False by simp
    qed
  qed
  then show False using assms by simp
qed

lemma smod_nonneg_pos: "0 \<le> a \<Longrightarrow> 0 < b \<Longrightarrow> (a::int) smod b = a mod b"
  by (cases "a = 0") (simp_all add: smod_int_alt_def)

lemma stream_not_accelerator:
  "device_type (event_device_option (event net task_id)) \<noteq> PROTO_CUDA \<Longrightarrow>
   stream env net task_id counters = Some (Inr 0, counters)"
  by (simp add: stream_def)

lemma stream_accelerator:
  assumes "device_type (event_device_option (event net task_id)) = PROTO_CUDA"
    and "0 \<le> device_id (event_device_option (event net task_id))"
  shows "stream env net task_id counters =
     stream_loop env net task_id (nat (device_id (event_device_option (event net task_id))))
       (if nat (device_id (event_device_option (event net task_id))) \<ge> length counters
        then counters @ replicate
               (nat (device_id (event_device_option (event net task_id))) + 1 - length counters) 0
        else counters)"
  using assms by (simp add: stream_def Let_def)

lemma grown_counters:
  fixes counters :: "int list" and g :: nat
  defines "cs1 \<equiv> (if g \<ge> length counters then counters @ replicate (g + 1 - length counters) 0
                   else counters)"
  shows "g < length cs1"
    and "cs1 ! g = (if g < length counters then counters ! g else 0)"
    and "\<forall>j < length counters. cs1 ! j = counters ! j"
    and "0 < spg \<Longrightarrow> list_all (\<lambda>c. 0 \<le> c \<and> c < spg) counters \<Longrightarrow>
         list_all (\<lambda>c. 0 \<le> c \<and> c < spg) cs1"
  by (auto simp: cs1_def nth_append list_all_iff)

lemma stream_unchecked:
  fixes counters :: "int list" and net :: AsyncNetBase and task_id :: nat
  assumes "device_type (event_device_option (event net task_id)) = PROTO_CUDA"
    and "0 \<le> device_id (event_device_option (event net task_id))"
    and "\<not> check_stream_status net"
  defines "g \<equiv> nat (device_id (event_device_option (event net task_id)))"
  defines "cs1 \<equiv> (if g \<ge> length counters
                   then counters @ replicate (g + 1 - length counters) 0 else counters)"
  shows "stream env net task_id counters
           = Some (Inr (cs1 ! g), cs1[g := (cs1 ! g + 1) smod streams_per_gpu net])"
proof -
  have g1: "g < length cs1"
    using grown_counters(1)[where g=g and counters=counters] by (simp add: cs1_def)
  have "stream env net task_id counters = stream_loop env net task_id g cs1"
    unfolding cs1_def g_def by (rule stream_accelerator[OF assms(1,2)])
  then show ?thesis using stream_loop_unchecked[OF assms(3) g1, of env task_id] by simp
qed

text \<open>
  Claim C8, as amended. A task that is not on the accelerator gets stream 0 and the
  counters are not touched. For an accelerator task with a valid device id, with
  \<open>check_stream_status\<close> off and a positive \<open>streams_per_gpu\<close>, \<open>stream\<close> returns the calling
  thread's counter of the device as it is (0 for a new entry) and stores the counter plus
  one modulo \<open>streams_per_gpu\<close>. When the thread's counters are within
  \<open>[0, streams_per_gpu)\<close> (as the empty vector of a new thread is, and as every such call
  leaves them), the returned stream is the counter modulo \<open>streams_per_gpu\<close>, lies in
  \<open>[0, streams_per_gpu)\<close>, and the next call from the same thread returns the next stream.
\<close>

theorem stream_round_robin:
  fixes counters :: "int list" and net :: AsyncNetBase and task_id :: nat
  defines "spg \<equiv> streams_per_gpu net"
    and "dev \<equiv> event_device_option (event net task_id)"
  defines "g \<equiv> nat (device_id dev)"
  defines "c \<equiv> (if g < length counters then counters ! g else 0)"
  shows "(device_type dev \<noteq> PROTO_CUDA \<longrightarrow>
            stream env net task_id counters = Some (Inr 0, counters)) \<and>
         (device_type dev = PROTO_CUDA \<and> 0 \<le> device_id dev \<and> \<not> check_stream_status net \<and>
          0 < spg \<and> 0 \<le> c \<and> c < 2147483647 \<longrightarrow>
            (\<exists>counters'.
               stream env net task_id counters = Some (Inr c, counters') \<and>
               g < length counters' \<and> counters' ! g = (c + 1) mod spg \<and>
               (\<forall>j < length counters. j \<noteq> g \<longrightarrow> counters' ! j = counters ! j))) \<and>
         (device_type dev = PROTO_CUDA \<and> 0 \<le> device_id dev \<and> \<not> check_stream_status net \<and>
          0 < spg \<and> list_all (\<lambda>c. 0 \<le> c \<and> c < spg) counters \<longrightarrow>
            (\<exists>counters' counters''.
               stream env net task_id counters = Some (Inr c, counters') \<and>
               c = c mod spg \<and> 0 \<le> c \<and> c < spg \<and>
               g < length counters' \<and> counters' ! g = (c + 1) mod spg \<and>
               (\<forall>j < length counters. j \<noteq> g \<longrightarrow> counters' ! j = counters ! j) \<and>
               list_all (\<lambda>c. 0 \<le> c \<and> c < spg) counters' \<and>
               stream env net task_id counters' = Some (Inr ((c + 1) mod spg), counters'')))"
proof (intro conjI impI)
  assume "device_type dev \<noteq> PROTO_CUDA"
  then show "stream env net task_id counters = Some (Inr 0, counters)"
    by (simp add: dev_def stream_not_accelerator)
next
  assume a: "device_type dev = PROTO_CUDA \<and> 0 \<le> device_id dev \<and> \<not> check_stream_status net \<and>
          0 < spg \<and> 0 \<le> c \<and> c < 2147483647"
  define cs1 where "cs1 = (if g \<ge> length counters
      then counters @ replicate (g + 1 - length counters) 0 else counters)"
  have g1: "g < length cs1" and c1: "cs1 ! g = c"
    and same1: "\<forall>j < length counters. cs1 ! j = counters ! j"
    using grown_counters(1,2,3)[where g=g and counters=counters]
    by (simp_all add: cs1_def c_def)
  have sm: "(c + 1) smod spg = (c + 1) mod spg"
    using a by (simp add: smod_nonneg_pos)
  have cuda: "device_type (event_device_option (event net task_id)) = PROTO_CUDA"
    and gpu: "0 \<le> device_id (event_device_option (event net task_id))"
    and nocheck: "\<not> check_stream_status net"
    using a by (simp_all add: dev_def)
  have acc: "stream env net task_id counters = stream_loop env net task_id g cs1"
    unfolding cs1_def g_def dev_def by (rule stream_accelerator[OF cuda gpu])
  have l1: "stream_loop env net task_id g cs1 = Some (Inr c, cs1[g := (c + 1) mod spg])"
    using stream_loop_unchecked[OF nocheck g1, of env task_id] c1 sm
    by (simp add: spg_def)
  have s1: "stream env net task_id counters = Some (Inr c, cs1[g := (c + 1) mod spg])"
    using acc l1 by simp
  show "\<exists>counters'.
               stream env net task_id counters = Some (Inr c, counters') \<and>
               g < length counters' \<and> counters' ! g = (c + 1) mod spg \<and>
               (\<forall>j < length counters. j \<noteq> g \<longrightarrow> counters' ! j = counters ! j)"
    using s1 g1 same1 by (intro exI[of _ "cs1[g := (c + 1) mod spg]"]) simp
next
  assume a: "device_type dev = PROTO_CUDA \<and> 0 \<le> device_id dev \<and> \<not> check_stream_status net \<and>
          0 < spg \<and> list_all (\<lambda>c. 0 \<le> c \<and> c < spg) counters"
  define cs1 where "cs1 = (if g \<ge> length counters
      then counters @ replicate (g + 1 - length counters) 0 else counters)"
  have g1: "g < length cs1" and c1: "cs1 ! g = c"
    and same1: "\<forall>j < length counters. cs1 ! j = counters ! j"
    and inv1: "list_all (\<lambda>c. 0 \<le> c \<and> c < spg) cs1"
    using grown_counters(1,2,3)[where g=g and counters=counters]
      grown_counters(4)[where g=g and counters=counters and spg=spg] a
    by (simp_all add: cs1_def c_def)
  have cr: "0 \<le> c" "c < spg"
    using inv1 g1 c1 by (auto simp: list_all_length)
  have sm: "(c + 1) smod spg = (c + 1) mod spg"
    using cr a by (simp add: smod_nonneg_pos)
  define cs2 where "cs2 = cs1[g := (c + 1) mod spg]"
  have cuda: "device_type (event_device_option (event net task_id)) = PROTO_CUDA"
    and gpu: "0 \<le> device_id (event_device_option (event net task_id))"
    and nocheck: "\<not> check_stream_status net"
    using a by (simp_all add: dev_def)
  have acc: "stream env net task_id cs = stream_loop env net task_id g
      (if g \<ge> length cs then cs @ replicate (g + 1 - length cs) 0 else cs)" for cs
    unfolding g_def dev_def by (rule stream_accelerator[OF cuda gpu])
  have l1: "stream_loop env net task_id g cs1 = Some (Inr c, cs2)"
    using stream_loop_unchecked[OF nocheck g1, of env task_id] c1 sm
    by (simp add: cs2_def spg_def)
  have s1: "stream env net task_id counters = Some (Inr c, cs2)"
    using acc[of counters] l1 by (simp only: cs1_def)
  have g2: "g < length cs2" and c2: "cs2 ! g = (c + 1) mod spg"
    using g1 by (simp_all add: cs2_def)
  have nr: "0 \<le> (c + 1) mod spg" "(c + 1) mod spg < spg" using a by simp_all
  have inv2: "list_all (\<lambda>c. 0 \<le> c \<and> c < spg) cs2"
    using inv1 nr set_update_subset_insert[of cs1 g "(c + 1) mod spg"]
    by (auto simp: cs2_def list_all_iff)
  have same2: "\<forall>j < length counters. j \<noteq> g \<longrightarrow> cs2 ! j = counters ! j"
    using same1 by (simp add: cs2_def)
  have sm2: "((c + 1) mod spg + 1) smod spg = ((c + 1) mod spg + 1) mod spg"
    using nr a by (simp add: smod_nonneg_pos)
  have l2: "stream_loop env net task_id g cs2
      = Some (Inr ((c + 1) mod spg), cs2[g := ((c + 1) mod spg + 1) mod spg])"
    using stream_loop_unchecked[OF nocheck g2, of env task_id] c2 sm2
    by (simp add: spg_def)
  have "(if g \<ge> length cs2 then cs2 @ replicate (g + 1 - length cs2) 0 else cs2) = cs2"
    using g2 by simp
  then have s2: "stream env net task_id cs2
      = Some (Inr ((c + 1) mod spg), cs2[g := ((c + 1) mod spg + 1) mod spg])"
    using acc[of cs2] l2 by simp
  show "\<exists>counters' counters''.
               stream env net task_id counters = Some (Inr c, counters') \<and>
               c = c mod spg \<and> 0 \<le> c \<and> c < spg \<and>
               g < length counters' \<and> counters' ! g = (c + 1) mod spg \<and>
               (\<forall>j < length counters. j \<noteq> g \<longrightarrow> counters' ! j = counters ! j) \<and>
               list_all (\<lambda>c. 0 \<le> c \<and> c < spg) counters' \<and>
               stream env net task_id counters' = Some (Inr ((c + 1) mod spg), counters'')"
    using s1 s2 cr g2 c2 same2 inv2 by (intro exI[of _ cs2] exI) simp
qed

lemma stream_loop_checked_step:
  assumes "check_stream_status net" and "g < length cs"
  shows "stream_loop env net task_id g cs =
     (if isStreamFree env net task_id (cs ! g)
      then Some (Inr (cs ! g), cs[g := (cs ! g + 1) smod streams_per_gpu net])
      else stream_loop env net task_id g (cs[g := (cs ! g + 1) smod streams_per_gpu net]))"
  using assms by (subst stream_loop.simps) (simp add: Let_def)

lemma stream_loop_finds_free:
  assumes "check_stream_status net" and "0 < streams_per_gpu net"
    and "0 \<le> s" and "s < streams_per_gpu net" and "isStreamFree env net task_id s"
  shows "g < length cs \<Longrightarrow> 0 \<le> cs ! g \<Longrightarrow> cs ! g < streams_per_gpu net \<Longrightarrow>
         k = nat ((s - cs ! g) mod streams_per_gpu net) \<Longrightarrow>
         \<exists>sid cs'. stream_loop env net task_id g cs = Some (Inr sid, cs')"
proof (induction k arbitrary: cs)
  case 0
  then have "(s - cs ! g) mod streams_per_gpu net = 0"
    using assms(2) by (simp add: nat_eq_iff2)
  then have d: "streams_per_gpu net dvd (s - cs ! g)" by (simp add: mod_eq_0_iff_dvd)
  have "cs ! g = s"
  proof (rule ccontr)
    assume "cs ! g \<noteq> s"
    then consider "0 < s - cs ! g" | "0 < cs ! g - s" by linarith
    then show False
    proof cases
      case 1
      moreover have "s - cs ! g < streams_per_gpu net" using assms(4) 0(2) by simp
      ultimately show False using d zdvd_not_zless by blast
    next
      case 2
      moreover have "cs ! g - s < streams_per_gpu net" using assms(3) 0(3) by simp
      moreover have "streams_per_gpu net dvd (cs ! g - s)"
        using d by (simp add: dvd_diff_commute)
      ultimately show False using zdvd_not_zless by blast
    qed
  qed
  then show ?case using assms(1,5) 0(1) by (simp add: stream_loop_checked_step)
next
  case (Suc k)
  let ?n = "streams_per_gpu net"
  let ?c = "cs ! g"
  show ?case
  proof (cases "isStreamFree env net task_id ?c")
    case True
    then show ?thesis using assms(1) Suc.prems(1) by (simp add: stream_loop_checked_step)
  next
    case False
    let ?cs' = "cs[g := (?c + 1) smod ?n]"
    have sm: "(?c + 1) smod ?n = (?c + 1) mod ?n"
      using Suc.prems(2) assms(2) by (simp add: smod_nonneg_pos)
    have g': "g < length ?cs'" using Suc.prems(1) by simp
    have c': "?cs' ! g = (?c + 1) mod ?n" using Suc.prems(1) sm by simp
    have r': "0 \<le> ?cs' ! g" "?cs' ! g < ?n" using c' assms(2) by simp_all
    have m: "(s - ?c) mod ?n = int (Suc k)"
      using Suc.prems(4) assms(2) by (simp add: nat_eq_iff2)
    have "(s - ?cs' ! g) mod ?n = (s - (?c + 1)) mod ?n"
      by (simp only: c' mod_diff_right_eq)
    also have "\<dots> = ((s - ?c) mod ?n - 1) mod ?n"
      by (simp add: mod_diff_left_eq algebra_simps)
    also have "\<dots> = int k mod ?n" using m by simp
    also have "\<dots> = int k"
    proof -
      have "int (Suc k) < ?n" using m assms(2) pos_mod_bound[of ?n "s - ?c"] by simp
      then show ?thesis by (simp add: mod_pos_pos_trivial)
    qed
    finally have k': "k = nat ((s - ?cs' ! g) mod ?n)" by simp
    from Suc.IH[OF g' r' k'] show ?thesis
      using assms(1) Suc.prems(1) False by (simp add: stream_loop_checked_step)
  qed
qed

lemma net_gpu_facts:
  "device_type (event_device_option (event (net_gpu check) 0)) = PROTO_CUDA"
  "device_id (event_device_option (event (net_gpu check) 0)) = 0"
  "check_stream_status (net_gpu check) = check"
  "streams_per_gpu (net_gpu check) = 2"
  by (simp_all add: net_gpu_def event_def mk_net_def mk_op_def gpu_option_def)

theorem stream_round_robin_witness:
  "fst (the (stream env_ok (net_gpu False) 0 [])) = Inr 0 \<and>
   fst (the (stream env_ok (net_gpu False) 0 (snd (the (stream env_ok (net_gpu False) 0 [])))))
     = Inr 1 \<and>
   fst (the (stream env_ok (net_gpu False) 0 [7])) = Inr 7 \<and>
   snd (the (stream env_ok (net_gpu False) 0 [7])) ! 0 = 0 \<and>
   device_type (event_device_option (event net_three_chains 0)) = PROTO_CPU \<and>
   stream env_ok net_three_chains 0 [] = Some (Inr 0, [])"
proof -
  have cpu: "device_type (event_device_option (event net_three_chains 0)) = PROTO_CPU"
    by (simp add: event_def net_three_chains_def mk_net_def mk_op_def cpu_option_def)
  from stream_round_robin[of net_three_chains 0 env_ok "[]"] cpu
  have a: "stream env_ok net_three_chains 0 [] = Some (Inr 0, [])" by simp
  from stream_round_robin[of "net_gpu False" 0 env_ok "[]"]
  obtain counters' counters'' where
    "stream env_ok (net_gpu False) 0 [] = Some (Inr 0, counters')"
    "stream env_ok (net_gpu False) 0 counters' = Some (Inr 1, counters'')"
    by (auto simp: net_gpu_facts)
  moreover from stream_round_robin[of "net_gpu False" 0 env_ok "[7]"]
  obtain cs where
    "stream env_ok (net_gpu False) 0 [7] = Some (Inr 7, cs)" "cs ! 0 = 0"
    by (auto simp: net_gpu_facts)
  ultimately show ?thesis using a cpu by simp
qed

text \<open>The thread's counter for the device was left at 3 (by a net with more streams per
  device); a net with two streams per device gets stream 3.\<close>

theorem stream_stale_counter_counterexample:
  "device_type (event_device_option (event (net_gpu False) 0)) = PROTO_CUDA \<and>
   \<not> check_stream_status (net_gpu False) \<and> streams_per_gpu (net_gpu False) = 2 \<and>
   stream env_ok (net_gpu False) 0 [3] = Some (Inr 3, [0])"
proof -
  have "stream env_ok (net_gpu False) 0 [3] = Some (Inr 3, [0])"
    using stream_unchecked[of "net_gpu False" 0 env_ok "[3]"]
    by (simp add: net_gpu_facts smod_nonneg_pos)
  then show ?thesis by (simp add: net_gpu_facts)
qed

text \<open>
  Claim C4, as amended. With \<open>check_stream_status\<close> on, the search of \<open>stream\<close> for an
  accelerator task with a valid device id has no cap: it ends only at a stream that
  \<open>isStreamFree\<close> reports free. So a stream it returns was reported free, it does not
  return when no stream is ever reported free, and it does return when the counters are
  within \<open>[0, streams_per_gpu)\<close> and some stream of that range is reported free.
\<close>

theorem stream_checked_search:
  fixes counters :: "int list" and net :: AsyncNetBase and task_id :: nat
  defines "spg \<equiv> streams_per_gpu net"
    and "dev \<equiv> event_device_option (event net task_id)"
  assumes "check_stream_status net" and "device_type dev = PROTO_CUDA" and "0 \<le> device_id dev"
  shows "(\<forall>stream_id counters'.
            stream env net task_id counters = Some (Inr stream_id, counters') \<longrightarrow>
            isStreamFree env net task_id stream_id) \<and>
         ((\<forall>stream_id. \<not> isStreamFree env net task_id stream_id) \<longrightarrow>
            stream env net task_id counters = None) \<and>
         (0 < spg \<and> list_all (\<lambda>c. 0 \<le> c \<and> c < spg) counters \<and>
          (\<exists>s. 0 \<le> s \<and> s < spg \<and> isStreamFree env net task_id s) \<longrightarrow>
            (\<exists>stream_id counters'.
               stream env net task_id counters = Some (Inr stream_id, counters')))"
proof -
  define g where "g = nat (device_id dev)"
  define cs1 where "cs1 = (if g \<ge> length counters
      then counters @ replicate (g + 1 - length counters) 0 else counters)"
  have acc: "stream env net task_id counters = stream_loop env net task_id g cs1"
    unfolding cs1_def g_def dev_def
    by (rule stream_accelerator[OF assms(4,5)[unfolded dev_def]])
  have g1: "g < length cs1"
    using grown_counters(1)[where g=g and counters=counters] by (simp add: cs1_def)
  have a: "\<forall>stream_id counters'.
            stream env net task_id counters = Some (Inr stream_id, counters') \<longrightarrow>
            isStreamFree env net task_id stream_id"
    using stream_loop_returns_free[OF _ assms(3)] by (auto simp: acc)
  have b: "(\<forall>stream_id. \<not> isStreamFree env net task_id stream_id) \<longrightarrow>
            stream env net task_id counters = None"
    using stream_loop_never_free[OF _ assms(3) g1] by (simp add: acc)
  have c: "\<exists>stream_id counters'.
               stream env net task_id counters = Some (Inr stream_id, counters')"
    if h: "0 < spg \<and> list_all (\<lambda>c. 0 \<le> c \<and> c < spg) counters \<and>
          (\<exists>s. 0 \<le> s \<and> s < spg \<and> isStreamFree env net task_id s)"
  proof -
    from h obtain s where s: "0 \<le> s" "s < spg" "isStreamFree env net task_id s" by auto
    have inv1: "list_all (\<lambda>c. 0 \<le> c \<and> c < spg) cs1"
      using grown_counters(4)[where g=g and counters=counters and spg=spg] h
      by (simp add: cs1_def)
    then have r: "0 \<le> cs1 ! g" "cs1 ! g < streams_per_gpu net"
      using g1 by (auto simp: list_all_length spg_def)
    show ?thesis
      using stream_loop_finds_free[OF assms(3) _ s(1) _ s(3) g1 r refl] h s(2)
      by (simp add: acc spg_def)
  qed
  show ?thesis using a b c by blast
qed

theorem stream_checked_search_witness:
  "check_stream_status (net_gpu True) \<and>
   device_type (event_device_option (event (net_gpu True) 0)) = PROTO_CUDA \<and>
   0 \<le> device_id (event_device_option (event (net_gpu True) 0)) \<and>
   stream env_busy (net_gpu True) 0 [1] = None \<and>
   isStreamFree env_ok (net_gpu True) 0 1 \<and>
   stream env_ok (net_gpu True) 0 [1] \<noteq> None"
proof -
  have h: "check_stream_status (net_gpu True)"
    "device_type (event_device_option (event (net_gpu True) 0)) = PROTO_CUDA"
    "0 \<le> device_id (event_device_option (event (net_gpu True) 0))"
    by (simp_all add: net_gpu_facts)
  have busy: "\<forall>stream_id. \<not> isStreamFree env_busy (net_gpu True) 0 stream_id"
    by (simp add: isStreamFree_def env_busy_def mk_env_def)
  have free: "isStreamFree env_ok (net_gpu True) 0 1"
    by (simp add: isStreamFree_def env_ok_def mk_env_def)
  have "\<exists>s. 0 \<le> s \<and> s < streams_per_gpu (net_gpu True) \<and> isStreamFree env_ok (net_gpu True) 0 s"
    using free by (intro exI[of _ 1]) (simp add: net_gpu_facts)
  then show ?thesis
    using stream_checked_search[OF h, of env_busy "[1]"]
      stream_checked_search[OF h, of env_ok "[1]"] h busy free
    by (auto simp: net_gpu_facts)
qed

text \<open>With check_stream_status on and no stream ever free, the search does not end,
  however many attempts \<open>streams_per_gpu\<close> allows.\<close>

theorem stream_no_cap_counterexample:
  "check_stream_status (net_gpu True) \<and> streams_per_gpu (net_gpu True) = 2 \<and>
   device_type (event_device_option (event (net_gpu True) 0)) = PROTO_CUDA \<and>
   stream env_busy (net_gpu True) 0 [] = None"
proof -
  have busy: "\<forall>stream_id. \<not> isStreamFree env_busy (net_gpu True) 0 stream_id"
    by (simp add: isStreamFree_def env_busy_def mk_env_def)
  have "stream_loop env_busy (net_gpu True) 0 0 [0] = None"
    by (rule stream_loop_never_free[OF busy]) (simp_all add: net_gpu_facts)
  then have "stream env_busy (net_gpu True) 0 [] = None"
    by (simp add: stream_def net_gpu_facts)
  then show ?thesis by (simp add: net_gpu_facts)
qed

end
